theory Spec2Isabelle
  imports Main "HOL-Library.AList"
begin

section \<open>colprint: byte strings, errors and the pieces of the Go library the code calls\<close>

text \<open>
  A Go \<open>string\<close> and a \<open>[]byte\<close> are both sequences of bytes; \<open>len\<close> counts bytes.
  Both are modelled as \<open>char list\<close> (an Isabelle \<open>char\<close> is one byte). A scratch
  buffer is modelled by its contents only: \<open>(*buf)[:0]\<close> is the empty list.
\<close>

type_synonym bytes = string

text \<open>
  The values \<open>fmt.Errorf\<close> builds in compiler.go, one constructor for each format
  string, followed by the two run-time panics the code can raise (a slice bound out of range
  in \<open>val[:width]\<close> or \<open>display[:f.Width]\<close>, and a call of a nil extractor).
  A panic unwinds the caller; it is kept as a value here so that no branch is lost.
\<close>

datatype error =
    EmptySpec
  | NoFields
  | ExpandingDefault error
  | ExpandingCollection string error
  | UnknownCollection string
  | EmptyWidth string
  | InvalidWidthString string string
  | UnknownField string
  | InvalidWidth int string
  | PanicSliceBounds
  | PanicNilFunc

subsection \<open>helpers.go\<close>

text \<open>
  \<open>padBytesLeft(dst, val, width)\<close>: truncate when \<open>len(val) > width\<close>, else append
  \<open>val\<close> and then spaces while \<open>i < width\<close>. The slice \<open>val[:width]\<close> panics for a
  negative \<open>width\<close>.
\<close>

definition padBytesLeft :: "bytes \<Rightarrow> bytes \<Rightarrow> int \<Rightarrow> error + bytes" where
  "padBytesLeft dst val width =
     (if int (length val) > width then
        (if width < 0 then Inl PanicSliceBounds else Inr (dst @ take (nat width) val))
      else Inr (dst @ val @ replicate (nat (width - int (length val))) (CHR '' '')))"

definition padLeft :: "bytes \<Rightarrow> string \<Rightarrow> int \<Rightarrow> error + bytes" where
  "padLeft dst s width = padBytesLeft dst s width"


subsection \<open>strings and strconv\<close>

text \<open>
  The functions of Go's standard library that compiler.go and registry.go call, written
  from their documented behaviour. \<open>strings.TrimSpace\<close> removes leading and trailing
  Unicode white space: the six ASCII space bytes and the UTF-8 encodings of U+0085, U+00A0,
  U+1680, U+2000..U+200A, U+2028, U+2029, U+202F, U+205F and U+3000.
\<close>

definition asciiSpace :: "char \<Rightarrow> bool" where
  "asciiSpace c =
     (c = CHR 0x09 \<or> c = CHR 0x0A \<or> c = CHR 0x0B \<or> c = CHR 0x0C \<or> c = CHR 0x0D \<or> c = CHR '' '')"

definition unicodeSpaces :: "bytes list" where
  "unicodeSpaces =
     [[CHR 0xC2, CHR 0x85], [CHR 0xC2, CHR 0xA0], [CHR 0xE1, CHR 0x9A, CHR 0x80],
      [CHR 0xE2, CHR 0x80, CHR 0x80], [CHR 0xE2, CHR 0x80, CHR 0x81],
      [CHR 0xE2, CHR 0x80, CHR 0x82], [CHR 0xE2, CHR 0x80, CHR 0x83],
      [CHR 0xE2, CHR 0x80, CHR 0x84], [CHR 0xE2, CHR 0x80, CHR 0x85],
      [CHR 0xE2, CHR 0x80, CHR 0x86], [CHR 0xE2, CHR 0x80, CHR 0x87],
      [CHR 0xE2, CHR 0x80, CHR 0x88], [CHR 0xE2, CHR 0x80, CHR 0x89],
      [CHR 0xE2, CHR 0x80, CHR 0x8A], [CHR 0xE2, CHR 0x80, CHR 0xA8],
      [CHR 0xE2, CHR 0x80, CHR 0xA9], [CHR 0xE2, CHR 0x80, CHR 0xAF],
      [CHR 0xE2, CHR 0x81, CHR 0x9F], [CHR 0xE3, CHR 0x80, CHR 0x80]]"

definition HasPrefix :: "string \<Rightarrow> string \<Rightarrow> bool" where
  "HasPrefix s p = (length p \<le> length s \<and> take (length p) s = p)"

definition HasSuffix :: "string \<Rightarrow> string \<Rightarrow> bool" where
  "HasSuffix s p = (length p \<le> length s \<and> drop (length s - length p) s = p)"

text \<open>The number of bytes of the white-space rune at the front (at the back) of \<open>s\<close>; 0 when there is none.\<close>

definition leadingSpace :: "bytes \<Rightarrow> nat" where
  "leadingSpace s =
     (case s of [] \<Rightarrow> 0
      | c # r \<Rightarrow> if asciiSpace c then 1
                 else (case List.find (HasPrefix s) unicodeSpaces of None \<Rightarrow> 0 | Some e \<Rightarrow> length e))"

definition trailingSpace :: "bytes \<Rightarrow> nat" where
  "trailingSpace s =
     (if s = [] then 0
      else if asciiSpace (last s) then 1
      else (case List.find (HasSuffix s) unicodeSpaces of None \<Rightarrow> 0 | Some e \<Rightarrow> length e))"

function TrimLeftSpace :: "bytes \<Rightarrow> bytes" where
  "TrimLeftSpace s = (if leadingSpace s = 0 then s else TrimLeftSpace (drop (leadingSpace s) s))"
  by pat_completeness auto
termination
  by (relation "measure length") (auto simp: leadingSpace_def split: list.splits)

function TrimRightSpace :: "bytes \<Rightarrow> bytes" where
  "TrimRightSpace s =
     (if trailingSpace s = 0 then s else TrimRightSpace (take (length s - trailingSpace s) s))"
  by pat_completeness auto
termination
  by (relation "measure length") (auto simp: trailingSpace_def split: if_splits)

definition TrimSpace :: "string \<Rightarrow> string" where
  "TrimSpace s = TrimRightSpace (TrimLeftSpace s)"

text \<open>\<open>strings.Split(s, sep)\<close> for a separator of one byte: always at least one piece.\<close>

fun Split :: "string \<Rightarrow> char \<Rightarrow> string list" where
  "Split [] sep = [[]]"
| "Split (c # cs) sep =
     (if c = sep then [] # Split cs sep
      else (case Split cs sep of [] \<Rightarrow> [[c]] | t # ts \<Rightarrow> (c # t) # ts))"

text \<open>\<open>strings.IndexByte\<close>: the index of the first occurrence, or \<open>-1\<close>.\<close>

fun IndexByte :: "string \<Rightarrow> char \<Rightarrow> int" where
  "IndexByte [] c = - 1"
| "IndexByte (x # xs) c =
     (if x = c then 0 else (let i = IndexByte xs c in if i < 0 then - 1 else i + 1))"

text \<open>
  \<open>strconv.Atoi\<close> where \<open>int\<close> has 64 bits: an optional sign, then one or more decimal
  digits and nothing else; a value outside \<open>[-2^63, 2^63)\<close> is an error as well.
\<close>

definition isDigit :: "char \<Rightarrow> bool" where
  "isDigit c = (48 \<le> (of_char c :: nat) \<and> (of_char c :: nat) \<le> 57)"

definition digitVal :: "char \<Rightarrow> nat" where
  "digitVal c = of_char c - 48"

definition decimalVal :: "string \<Rightarrow> nat" where
  "decimalVal ds = foldl (\<lambda>n c. n * 10 + digitVal c) 0 ds"

definition Atoi :: "string \<Rightarrow> int option" where
  "Atoi s =
     (let neg = (s \<noteq> [] \<and> hd s = CHR ''-'');
          ds = (if s \<noteq> [] \<and> (hd s = CHR ''-'' \<or> hd s = CHR ''+'') then tl s else s)
      in if ds = [] \<or> \<not> list_all isDigit ds then None
         else (let n = (if neg then - int (decimalVal ds) else int (decimalVal ds))
               in if - (2 ^ 63) \<le> n \<and> n < 2 ^ 63 then Some n else None))"

text \<open>\<open>strconv.AppendInt(dst, i, 10)\<close>: the decimal digits of \<open>i\<close>, with a minus sign when negative.\<close>

fun decimalDigits :: "nat \<Rightarrow> string" where
  "decimalDigits n =
     (if n < 10 then [''0123456789'' ! n]
      else decimalDigits (n div 10) @ [''0123456789'' ! (n mod 10)])"

definition AppendInt :: "bytes \<Rightarrow> int \<Rightarrow> bytes" where
  "AppendInt dst i =
     dst @ (if i < 0 then CHR ''-'' # decimalDigits (nat (- i)) else decimalDigits (nat i))"

text \<open>
  Two library functions are parameters of the model: \<open>strings.ToLower\<close> (Unicode case
  mapping) and the text \<open>strconv.AppendFloat(dst, x, 'f', prec, 64)\<close> appends for a
  \<open>float64\<close> \<open>x\<close>. The type \<open>'f\<close> stands for \<open>float64\<close>.
\<close>

record 'f golib =
  ToLower :: "string \<Rightarrow> string"
  FormatFloat :: "'f \<Rightarrow> int \<Rightarrow> bytes"

definition AppendFloat :: "'f golib \<Rightarrow> bytes \<Rightarrow> 'f \<Rightarrow> int \<Rightarrow> bytes" where
  "AppendFloat L dst x prec = dst @ FormatFloat L x prec"


declare decimalDigits.simps [simp del]
declare TrimLeftSpace.simps [simp del]
declare TrimRightSpace.simps [simp del]

section \<open>The data model (colprint.go)\<close>

text \<open>
  \<open>type Kind int\<close> with the constants \<open>iota + 1\<close>. A \<open>Field[T]\<close> carries one
  extractor for each kind; an extractor that was never set is \<open>nil\<close> (\<open>None\<close>).
  \<open>'v\<close> is the record type \<open>T\<close>. Go's \<open>int\<close> is modelled by \<open>int\<close>.
  registry.go reads and writes a \<open>Category\<close> field, which is therefore part of the record.
\<close>

type_synonym Kind = int

definition KindString :: Kind where "KindString = 1"
definition KindInt :: Kind where "KindInt = 2"
definition KindFloat :: Kind where "KindFloat = 3"
definition KindCustom :: Kind where "KindCustom = 4"

record ('v, 'f) Field =
  Name :: "string"
  Display :: "string"
  Description :: "string"
  Category :: "string"
  Width :: "int"
  Kind :: "Kind"
  Precision :: "int"
  GetString :: "('v \<Rightarrow> string) option"
  GetInt :: "('v \<Rightarrow> int) option"
  GetFloat :: "('v \<Rightarrow> 'f) option"
  GetCustom :: "(bytes \<Rightarrow> 'v \<Rightarrow> bytes) option"

definition zeroField :: "('v, 'f) Field" where
  "zeroField = \<lparr>Name = [], Display = [], Description = [], Category = [], Width = 0, Kind = 0,
     Precision = 0, GetString = None, GetInt = None, GetFloat = None, GetCustom = None\<rparr>"

record Options =
  Separator :: "string"
  NoPadding :: "bool"
  PadLastColumn :: "bool"
  NoHeader :: "bool"
  NoUnderline :: "bool"

text \<open>
  \<open>compiledCol.write(line, v, tmp)\<close> updates the two buffers it is given pointers to:
  it returns the new \<open>(line, tmp)\<close>, or the panic.
\<close>

record 'v compiledCol =
  width :: "int"
  write' :: "bytes \<Rightarrow> 'v \<Rightarrow> bytes \<Rightarrow> error + (bytes \<times> bytes)"

record 'v Program =
  header :: "bytes"
  underline :: "bytes"
  separator :: "bytes"
  columns :: "'v compiledCol list"

section \<open>The field catalog (registry.go)\<close>

text \<open>
  The five Go maps of a \<open>Registry[T]\<close> are association lists read with \<open>map_of\<close> and
  written with \<open>AList.update\<close>, so that the entries a \<open>range\<close> loop may visit can be listed.
\<close>

record ('v, 'f) Registry =
  fields' :: "(string \<times> ('v, 'f) Field) list"
  index :: "(string \<times> string) list"
  collections :: "(string \<times> string list) list"
  defaults :: "(string \<times> string) list"
  categories :: "(string \<times> string list) list"

definition NewRegistry :: "('v, 'f) Registry" where
  "NewRegistry = \<lparr>fields' = [], index = [], collections = [], defaults = [], categories = []\<rparr>"

text \<open>
  A \<open>FieldBuilder\<close> holds the registry pointer and the field under construction; the
  pointer is the registry passed to \<open>FieldBuilder_Register\<close>, so a builder is its field.
\<close>

definition Registry_Field :: "string \<Rightarrow> string \<Rightarrow> string \<Rightarrow> ('v, 'f) Field" where
  "Registry_Field name display description =
     zeroField\<lparr>Name := name, Display := display, Description := description, Width := 10\<rparr>"

definition FieldBuilder_Width :: "int \<Rightarrow> ('v, 'f) Field \<Rightarrow> ('v, 'f) Field" where
  "FieldBuilder_Width w b = b\<lparr>Width := w\<rparr>"

definition FieldBuilder_Category :: "string \<Rightarrow> ('v, 'f) Field \<Rightarrow> ('v, 'f) Field" where
  "FieldBuilder_Category cat b = b\<lparr>Category := cat\<rparr>"

definition FieldBuilder_String :: "('v \<Rightarrow> string) option \<Rightarrow> ('v, 'f) Field \<Rightarrow> ('v, 'f) Field" where
  "FieldBuilder_String fn b = b\<lparr>Kind := KindString, GetString := fn\<rparr>"

definition FieldBuilder_Int :: "('v \<Rightarrow> int) option \<Rightarrow> ('v, 'f) Field \<Rightarrow> ('v, 'f) Field" where
  "FieldBuilder_Int fn b = b\<lparr>Kind := KindInt, GetInt := fn\<rparr>"

definition FieldBuilder_Float :: "int \<Rightarrow> ('v \<Rightarrow> 'f) option \<Rightarrow> ('v, 'f) Field \<Rightarrow> ('v, 'f) Field" where
  "FieldBuilder_Float precision fn b = b\<lparr>Kind := KindFloat, Precision := precision, GetFloat := fn\<rparr>"

definition FieldBuilder_Custom :: "(bytes \<Rightarrow> 'v \<Rightarrow> bytes) option \<Rightarrow> ('v, 'f) Field \<Rightarrow> ('v, 'f) Field" where
  "FieldBuilder_Custom fn b = b\<lparr>Kind := KindCustom, GetCustom := fn\<rparr>"

text \<open>\<open>m[k]\<close> on a \<open>map[string][]string\<close>: the nil slice when the key is absent.\<close>

definition lookupList :: "(string \<times> string list) list \<Rightarrow> string \<Rightarrow> string list" where
  "lookupList m k = (case map_of m k of None \<Rightarrow> [] | Some xs \<Rightarrow> xs)"

definition FieldBuilder_Register ::
  "'f golib \<Rightarrow> ('v, 'f) Field \<Rightarrow> ('v, 'f) Registry \<Rightarrow> ('v, 'f) Registry" where
  "FieldBuilder_Register L b r =
     (let name = Name b;
          cat = (if Category b = [] then ''General'' else Category b)
      in r\<lparr>fields' := AList.update name b (fields' r),
           index := AList.update (ToLower L name) name (index r),
           categories := AList.update cat (lookupList (categories r) cat @ [name]) (categories r)\<rparr>)"

definition DefineCollection ::
  "string \<Rightarrow> string \<Rightarrow> string list \<Rightarrow> ('v, 'f) Registry \<Rightarrow> ('v, 'f) Registry" where
  "DefineCollection name defaultSpec fs r =
     r\<lparr>collections := AList.update name fs (collections r),
       defaults := AList.update name defaultSpec (defaults r)\<rparr>"

definition SetDefaults :: "string \<Rightarrow> string \<Rightarrow> ('v, 'f) Registry \<Rightarrow> ('v, 'f) Registry" where
  "SetDefaults collectionName spec r = r\<lparr>defaults := AList.update collectionName spec (defaults r)\<rparr>"

text \<open>
  \<open>get\<close>: the exact name first, then the lower-case index; \<open>r.fields[canonical]\<close> is the
  zero \<open>Field\<close> when \<open>canonical\<close> is not a key.
\<close>

definition get :: "'f golib \<Rightarrow> ('v, 'f) Registry \<Rightarrow> string \<Rightarrow> ('v, 'f) Field option" where
  "get L r name =
     (case map_of (fields' r) name of
        Some f \<Rightarrow> Some f
      | None \<Rightarrow>
          (case map_of (index r) (ToLower L name) of
             Some canonical \<Rightarrow>
               (case map_of (fields' r) canonical of Some f \<Rightarrow> Some f | None \<Rightarrow> Some zeroField)
           | None \<Rightarrow> None))"


section \<open>The spec compiler (compiler.go)\<close>

text \<open>\<open>parseFieldSpec\<close> returns \<open>(name, width, hasWidth)\<close> (the width is \<open>w\<close> below) or the error.\<close>

definition parseFieldSpec :: "string \<Rightarrow> error + (string \<times> int \<times> bool)" where
  "parseFieldSpec tok =
     (let idx = IndexByte tok (CHR '':'')
      in if idx < 0 then Inr (TrimSpace tok, 0, False)
         else (let name = TrimSpace (take (nat idx) tok);
                   widthStr = TrimSpace (drop (nat (idx + 1)) tok)
               in if widthStr = [] then Inl (EmptyWidth tok)
                  else (case Atoi widthStr of
                          None \<Rightarrow> Inl (InvalidWidthString widthStr tok)
                        | Some w \<Rightarrow> Inr (name, w, True))))"

text \<open>
  \<open>for _, defSpec := range reg.defaults { ...; break }\<close> runs its body for the entry the
  Go runtime happens to visit first, and not at all on an empty map. The runtime's choice
  is the number \<open>k\<close>: the loop sees the \<open>k\<close>-th entry of the map (modulo its size).
\<close>

definition rangeFirst :: "nat \<Rightarrow> (string \<times> string) list \<Rightarrow> string option" where
  "rangeFirst k m =
     (let es = AList.clearjunk m
      in if es = [] then None else Some (snd (es ! (k mod length es))))"

text \<open>
  A value of type \<open>choices\<close> fixes the runtime's choice for every \<open>range\<close> statement an expansion
  executes: the statement run for token number \<open>i\<close> of the spec being parsed is at path
  \<open>[i]\<close>, and the expansion started from that token sees the choices shifted by \<open>i\<close>.
\<close>

type_synonym choices = "nat list \<Rightarrow> nat"

definition shift :: "choices \<Rightarrow> nat \<Rightarrow> choices" where
  "shift ch i = (\<lambda>p. ch (i # p))"

text \<open>
  The token loop of \<open>parseSpec\<close>. \<open>rec i defSpec\<close> is the recursive call
  \<open>parseSpec(reg, defSpec)\<close> made for token number \<open>i\<close>; it is \<open>None\<close> when that call
  does not return.
\<close>

fun parseTokens ::
  "(nat \<Rightarrow> string \<Rightarrow> (error + ('v, 'f) Field list) option) \<Rightarrow> 'f golib \<Rightarrow> ('v, 'f) Registry \<Rightarrow>
   choices \<Rightarrow> nat \<Rightarrow> string list \<Rightarrow> ('v, 'f) Field list \<Rightarrow> (error + ('v, 'f) Field list) option" where
  "parseTokens rec L reg ch i [] fs = Some (Inr fs)"
| "parseTokens rec L reg ch i (tok0 # toks) fs =
     (let tok = TrimSpace tok0
      in if tok = [] then parseTokens rec L reg ch (Suc i) toks fs
         else if HasPrefix tok ''@'' then
           (let name = drop 1 tok
            in if name = ''default'' then
                 (case rangeFirst (ch [i]) (defaults reg) of
                    None \<Rightarrow> parseTokens rec L reg ch (Suc i) toks fs
                  | Some defSpec \<Rightarrow>
                      (case rec i defSpec of
                         None \<Rightarrow> None
                       | Some (Inl err) \<Rightarrow> Some (Inl (ExpandingDefault err))
                       | Some (Inr expanded) \<Rightarrow>
                           parseTokens rec L reg ch (Suc i) toks (fs @ expanded)))
               else
                 (case map_of (defaults reg) name of
                    Some defSpec \<Rightarrow>
                      (case rec i defSpec of
                         None \<Rightarrow> None
                       | Some (Inl err) \<Rightarrow> Some (Inl (ExpandingCollection name err))
                       | Some (Inr expanded) \<Rightarrow>
                           parseTokens rec L reg ch (Suc i) toks (fs @ expanded))
                  | None \<Rightarrow> Some (Inl (UnknownCollection name))))
         else
           (case parseFieldSpec tok of
              Inl err \<Rightarrow> Some (Inl err)
            | Inr (fieldName, w, hasWidth) \<Rightarrow>
                (case get L reg fieldName of
                   None \<Rightarrow> Some (Inl (UnknownField fieldName))
                 | Some field \<Rightarrow>
                     if hasWidth then
                       (if w \<le> 0 then Some (Inl (InvalidWidth w fieldName))
                        else parseTokens rec L reg ch (Suc i) toks (fs @ [field\<lparr>Width := w\<rparr>]))
                     else parseTokens rec L reg ch (Suc i) toks (fs @ [field]))))"

text \<open>
  \<open>parseSpec\<close> with the depth of nested calls bounded by the first argument: \<open>None\<close>
  means that the expansion needs a deeper stack than that.
\<close>

fun parseSpec ::
  "nat \<Rightarrow> 'f golib \<Rightarrow> ('v, 'f) Registry \<Rightarrow> choices \<Rightarrow> string \<Rightarrow> (error + ('v, 'f) Field list) option" where
  "parseSpec 0 L reg ch spec = None"
| "parseSpec (Suc n) L reg ch spec =
     parseTokens (\<lambda>i defSpec. parseSpec n L reg (shift ch i) defSpec) L reg ch 0 (Split spec (CHR '','')) []"

text \<open>\<open>buildHeader\<close>: the loop over \<open>fields\<close>, with the index \<open>i\<close> and the buffer.\<close>

fun buildHeader_loop ::
  "string \<Rightarrow> bool \<Rightarrow> bool \<Rightarrow> int \<Rightarrow> nat \<Rightarrow> ('v, 'f) Field list \<Rightarrow> bytes \<Rightarrow> error + bytes" where
  "buildHeader_loop sep noPadding padLast lastIdx i [] buf = Inr buf"
| "buildHeader_loop sep noPadding padLast lastIdx i (f # fs) buf =
     (let buf1 = (if i > 0 then buf @ sep else buf);
          isLast = (int i = lastIdx)
      in if noPadding \<or> (isLast \<and> \<not> padLast) then
           (if int (length (Display f)) > Width f then
              (if Width f < 0 then Inl PanicSliceBounds
               else buildHeader_loop sep noPadding padLast lastIdx (Suc i) fs
                      (buf1 @ take (nat (Width f)) (Display f)))
            else buildHeader_loop sep noPadding padLast lastIdx (Suc i) fs (buf1 @ Display f))
         else
           (case padLeft buf1 (Display f) (Width f) of
              Inl e \<Rightarrow> Inl e
            | Inr buf2 \<Rightarrow> buildHeader_loop sep noPadding padLast lastIdx (Suc i) fs buf2))"

definition buildHeader :: "('v, 'f) Field list \<Rightarrow> string \<Rightarrow> bool \<Rightarrow> bool \<Rightarrow> error + bytes" where
  "buildHeader fs sep noPadding padLast =
     buildHeader_loop sep noPadding padLast (int (length fs) - 1) 0 fs []"

definition buildUnderline :: "bytes \<Rightarrow> bytes" where
  "buildUnderline hdr = map (\<lambda>ch. if ch = CHR '' '' then CHR '' '' else CHR ''-'') hdr"

text \<open>
  \<open>makeWriter\<close>: one closure for each kind. The parameter \<open>noPad\<close> is not used by any of
  the five branches, as in the source.
\<close>

definition makeWriter :: "'f golib \<Rightarrow> ('v, 'f) Field \<Rightarrow> bool \<Rightarrow> 'v compiledCol" where
  "makeWriter L f noPad =
     (if Kind f = KindString then
        \<lparr>width = Width f,
         write' = (\<lambda>line v tmp.
           case GetString f of
             None \<Rightarrow> Inl PanicNilFunc
           | Some g \<Rightarrow>
               (case padLeft line (g v) (Width f) of
                  Inl e \<Rightarrow> Inl e
                | Inr line1 \<Rightarrow> Inr (line1, tmp)))\<rparr>
      else if Kind f = KindInt then
        \<lparr>width = Width f,
         write' = (\<lambda>line v tmp.
           case GetInt f of
             None \<Rightarrow> Inl PanicNilFunc
           | Some g \<Rightarrow>
               (let tmp1 = AppendInt [] (g v)
                in case padBytesLeft line tmp1 (Width f) of
                     Inl e \<Rightarrow> Inl e
                   | Inr line1 \<Rightarrow> Inr (line1, tmp1)))\<rparr>
      else if Kind f = KindFloat then
        (let prec = (if Precision f < 0 then 2 else Precision f)
         in \<lparr>width = Width f,
             write' = (\<lambda>line v tmp.
               case GetFloat f of
                 None \<Rightarrow> Inl PanicNilFunc
               | Some g \<Rightarrow>
                   (let tmp1 = AppendFloat L [] (g v) prec
                    in case padBytesLeft line tmp1 (Width f) of
                         Inl e \<Rightarrow> Inl e
                       | Inr line1 \<Rightarrow> Inr (line1, tmp1)))\<rparr>)
      else if Kind f = KindCustom then
        \<lparr>width = Width f,
         write' = (\<lambda>line v tmp.
           case GetCustom f of
             None \<Rightarrow> Inl PanicNilFunc
           | Some g \<Rightarrow>
               (let tmp1 = g [] v
                in case padBytesLeft line tmp1 (Width f) of
                     Inl e \<Rightarrow> Inl e
                   | Inr line1 \<Rightarrow> Inr (line1, tmp1)))\<rparr>
      else
        \<lparr>width = Width f,
         write' = (\<lambda>line v tmp. Inr (line @ replicate (nat (Width f)) (CHR '' ''), tmp))\<rparr>)"

text \<open>
  \<open>CompileWithOptions\<close>; its first argument bounds the depth of the expansion, and the
  result is \<open>None\<close> when \<open>parseSpec\<close> does not return within it.
\<close>

definition CompileWithOptions ::
  "nat \<Rightarrow> 'f golib \<Rightarrow> choices \<Rightarrow> ('v, 'f) Registry \<Rightarrow> string \<Rightarrow> Options \<Rightarrow> (error + 'v Program) option" where
  "CompileWithOptions n L ch reg spec opts =
     (if spec = [] then Some (Inl EmptySpec)
      else
        (case parseSpec n L reg ch spec of
           None \<Rightarrow> None
         | Some (Inl err) \<Rightarrow> Some (Inl err)
         | Some (Inr fs) \<Rightarrow>
             if length fs = 0 then Some (Inl NoFields)
             else
               (let sep = Separator opts
                in case (if \<not> NoHeader opts then buildHeader fs sep (NoPadding opts) (PadLastColumn opts)
                         else Inr [])
                   of Inl e \<Rightarrow> Some (Inl e)
                    | Inr hdr \<Rightarrow>
                        (let ul = (if \<not> NoUnderline opts then buildUnderline hdr else []);
                             lastIdx = int (length fs) - 1
                         in Some (Inr \<lparr>header = hdr, underline = ul, separator = sep,
                              columns = map (\<lambda>(i, f).
                                  makeWriter L f (NoPadding opts \<or> (int i = lastIdx \<and> \<not> PadLastColumn opts)))
                                (enumerate 0 fs)\<rparr>)))))"

definition Compile ::
  "nat \<Rightarrow> 'f golib \<Rightarrow> choices \<Rightarrow> ('v, 'f) Registry \<Rightarrow> string \<Rightarrow> (error + 'v Program) option" where
  "Compile n L ch reg spec =
     CompileWithOptions n L ch reg spec
       \<lparr>Separator = ''  '', NoPadding = False, PadLastColumn = False, NoHeader = False,
        NoUnderline = False\<rparr>"

section \<open>Program execution (colprint.go)\<close>

text \<open>
  An \<open>io.Writer\<close> is a sink state \<open>'w\<close> with its \<open>Write\<close> method, which returns the
  new state and the error, if any (the byte count is discarded by every caller here).
\<close>

type_synonym ('w, 'e) Writer = "'w \<Rightarrow> bytes \<Rightarrow> 'w \<times> 'e option"

definition WriteHeader :: "('w, 'e) Writer \<Rightarrow> 'w \<Rightarrow> 'v Program \<Rightarrow> bytes \<Rightarrow> 'w \<times> 'e option \<times> bytes" where
  "WriteHeader wr w p line =
     (let line1 = [] @ header p;
          line2 = line1 @ [CHR 0x0A];
          (w1, err) = wr w line2
      in (w1, err, line2))"

definition WriteUnderline :: "('w, 'e) Writer \<Rightarrow> 'w \<Rightarrow> 'v Program \<Rightarrow> bytes \<Rightarrow> 'w \<times> 'e option \<times> bytes" where
  "WriteUnderline wr w p line =
     (let line1 = [] @ underline p;
          line2 = line1 @ [CHR 0x0A];
          (w1, err) = wr w line2
      in (w1, err, line2))"

definition HeaderString :: "'v Program \<Rightarrow> string" where
  "HeaderString p = header p"

text \<open>The column loop of \<open>WriteRow\<close>, returning the buffers \<open>(line, tmp)\<close>.\<close>

fun WriteRow_loop ::
  "'v Program \<Rightarrow> nat \<Rightarrow> 'v compiledCol list \<Rightarrow> 'v \<Rightarrow> bytes \<Rightarrow> bytes \<Rightarrow> error + (bytes \<times> bytes)" where
  "WriteRow_loop p i [] v tmp line = Inr (line, tmp)"
| "WriteRow_loop p i (c # cs) v tmp line =
     (let line1 = (if i > 0 then line @ separator p else line)
      in case write' c line1 v tmp of
           Inl e \<Rightarrow> Inl e
         | Inr (line2, tmp2) \<Rightarrow> WriteRow_loop p (Suc i) cs v tmp2 line2)"

text \<open>\<open>WriteRow\<close> returns the sink, the error of the write, and the buffers \<open>tmp\<close> and \<open>line\<close>.\<close>

definition WriteRow ::
  "('w, 'e) Writer \<Rightarrow> 'w \<Rightarrow> 'v Program \<Rightarrow> 'v \<Rightarrow> bytes \<Rightarrow> bytes \<Rightarrow>
   error + ('w \<times> 'e option \<times> bytes \<times> bytes)" where
  "WriteRow wr w p v tmp line =
     (case WriteRow_loop p 0 (columns p) v tmp [] of
        Inl e \<Rightarrow> Inl e
      | Inr (line1, tmp1) \<Rightarrow>
          (let line2 = line1 @ [CHR 0x0A];
               (w1, err) = wr w line2
           in Inr (w1, err, tmp1, line2)))"

text \<open>The column loop of \<open>FormatRow\<close>.\<close>

fun FormatRow_loop ::
  "'v Program \<Rightarrow> nat \<Rightarrow> 'v compiledCol list \<Rightarrow> 'v \<Rightarrow> bytes \<Rightarrow> bytes \<Rightarrow> error + (bytes \<times> bytes)" where
  "FormatRow_loop p i [] v tmp line = Inr (line, tmp)"
| "FormatRow_loop p i (c # cs) v tmp line =
     (let line1 = (if i > 0 then line @ separator p else line)
      in case write' c line1 v tmp of
           Inl e \<Rightarrow> Inl e
         | Inr (line2, tmp2) \<Rightarrow> FormatRow_loop p (Suc i) cs v tmp2 line2)"

text \<open>\<open>FormatRow\<close> returns the string and the buffers \<open>tmp\<close> and \<open>line\<close>.\<close>

definition FormatRow ::
  "'v Program \<Rightarrow> 'v \<Rightarrow> bytes \<Rightarrow> bytes \<Rightarrow> error + (string \<times> bytes \<times> bytes)" where
  "FormatRow p v tmp line =
     (case FormatRow_loop p 0 (columns p) v tmp [] of
        Inl e \<Rightarrow> Inl e
      | Inr (line1, tmp1) \<Rightarrow> Inr (line1, tmp1, line1))"


section \<open>Notions the properties are stated with\<close>

text \<open>
  The formatted value of field \<open>f\<close> for record \<open>v\<close>: the bytes the branch of
  \<open>makeWriter\<close> for the field's kind hands to \<open>padLeft\<close> or \<open>padBytesLeft\<close>. There
  is none for a kind outside the four constants or for a nil extractor.
\<close>

definition formatted :: "'f golib \<Rightarrow> ('v, 'f) Field \<Rightarrow> 'v \<Rightarrow> bytes option" where
  "formatted L f v =
     (if Kind f = KindString then map_option (\<lambda>g. g v) (GetString f)
      else if Kind f = KindInt then map_option (\<lambda>g. AppendInt [] (g v)) (GetInt f)
      else if Kind f = KindFloat then
        map_option (\<lambda>g. AppendFloat L [] (g v) (if Precision f < 0 then 2 else Precision f)) (GetFloat f)
      else if Kind f = KindCustom then map_option (\<lambda>g. g [] v) (GetCustom f)
      else None)"

text \<open>Right-trimming of trailing ASCII spaces (\<open>strings.TrimRight(s, " ")\<close>).\<close>

definition trimTrailingSpaces :: "bytes \<Rightarrow> bytes" where
  "trimTrailingSpaces s = rev (dropWhile (\<lambda>c. c = CHR '' '') (rev s))"

text \<open>A sink that records every \<open>Write\<close> call it receives, in order, and never fails.\<close>

definition logWrite :: "(bytes list, unit) Writer" where
  "logWrite calls b = (calls @ [b], None)"

text \<open>
  The header of a compilation's program, and the row it renders for a record with empty
  scratch buffers (\<open>FormatRow\<close>); the error of the compilation when there is no program.
\<close>

definition headerOf :: "(error + 'v Program) option \<Rightarrow> (error + string) option" where
  "headerOf r = map_option (map_sum id HeaderString) r"

definition rowOf :: "(error + 'v Program) option \<Rightarrow> 'v \<Rightarrow> (error + string) option" where
  "rowOf r v =
     (case r of
        None \<Rightarrow> None
      | Some (Inl e) \<Rightarrow> Some (Inl e)
      | Some (Inr p) \<Rightarrow> Some (map_sum id fst (FormatRow p v [] [])))"

subsection \<open>References between default specs\<close>

text \<open>
  The collection names a token refers to, that is, the keys of \<open>reg.defaults\<close> whose spec
  the loop of \<open>parseSpec\<close> may expand at this token: every key for \<open>@default\<close> (the
  \<open>range\<close> loop may visit any entry first), and the name for \<open>@name\<close> when it is a key.
  The reference graph has an edge \<open>(k', k)\<close> when the default spec of \<open>k\<close> refers to \<open>k'\<close>.
\<close>

definition tokenRefs :: "('v, 'f) Registry \<Rightarrow> string \<Rightarrow> string list" where
  "tokenRefs reg tok0 =
     (let tok = TrimSpace tok0
      in if HasPrefix tok ''@'' then
           (let name = drop 1 tok
            in if name = ''default'' then map fst (AList.clearjunk (defaults reg))
               else (case map_of (defaults reg) name of None \<Rightarrow> [] | Some defSpec \<Rightarrow> [name]))
         else [])"

definition specRefs :: "('v, 'f) Registry \<Rightarrow> string \<Rightarrow> string list" where
  "specRefs reg spec = concat (map (tokenRefs reg) (Split spec (CHR '','')))"

definition refGraph :: "('v, 'f) Registry \<Rightarrow> (string \<times> string) set" where
  "refGraph reg = {(k', k). \<exists>s. map_of (defaults reg) k = Some s \<and> k' \<in> set (specRefs reg s)}"

text \<open>
  The call \<open>parseSpec(reg, spec)\<close> reaches token number \<open>j\<close> of \<open>spec\<close>: the tokens in
  front of it are processed, with a stack of some depth, without an error. \<open>refAt spec j\<close>
  is the collection name when that token is \<open>@name\<close> with a name other than \<open>default\<close>.
\<close>

definition reachesToken :: "'f golib \<Rightarrow> ('v, 'f) Registry \<Rightarrow> choices \<Rightarrow> string \<Rightarrow> nat \<Rightarrow> bool" where
  "reachesToken L reg ch spec j \<longleftrightarrow>
     j < length (Split spec (CHR '','')) \<and>
     (\<exists>n fs. parseTokens (\<lambda>i defSpec. parseSpec n L reg (shift ch i) defSpec) L reg ch 0
                (take j (Split spec (CHR '',''))) [] = Some (Inr fs))"

definition refAt :: "string \<Rightarrow> nat \<Rightarrow> string option" where
  "refAt spec j =
     (if j < length (Split spec (CHR '','')) then
        (let tok = TrimSpace (Split spec (CHR '','') ! j)
         in if HasPrefix tok ''@'' \<and> drop 1 tok \<noteq> ''default'' then Some (drop 1 tok) else None)
      else None)"

subsection \<open>The store: what a compiled program shares with the catalog\<close>

text \<open>
  Whether a change of the catalog can reach a program that was compiled before it depends on
  what the program's closures and slices point to. The store holds the objects concerned,
  each at an address: the registries (a \<open>*Registry[T]\<close> is the address of one; its maps
  hold \<open>Field\<close> structs and strings by value), the \<open>Field\<close> variables that closures
  capture, and the byte arrays behind \<open>[]byte\<close> slices. \<open>fresh\<close> is the next address
  an allocation uses.
\<close>

datatype ('v, 'f) obj =
    RegistryObj "('v, 'f) Registry"
  | FieldVar "('v, 'f) Field"
  | ByteArray bytes

record ('v, 'f) heap =
  objs :: "nat \<Rightarrow> ('v, 'f) obj option"
  fresh :: nat

definition alloc :: "('v, 'f) obj \<Rightarrow> ('v, 'f) heap \<Rightarrow> nat \<times> ('v, 'f) heap" where
  "alloc ob h = (fresh h, h\<lparr>objs := (objs h)(fresh h \<mapsto> ob), fresh := Suc (fresh h)\<rparr>)"

text \<open>The bytes of a slice: of the array at its address, and none for the nil slice.\<close>

definition readBytes :: "('v, 'f) heap \<Rightarrow> nat option \<Rightarrow> bytes" where
  "readBytes h ref =
     (case ref of
        None \<Rightarrow> []
      | Some a \<Rightarrow> (case objs h a of Some (ByteArray b) \<Rightarrow> b | _ \<Rightarrow> []))"

text \<open>
  A closure runs in the store of the moment it is called in: the \<open>write\<close> function of a
  column takes the store as well. A \<open>Program\<close> is the struct \<open>Compile\<close> returns a
  pointer to: three slices and the columns; no function of the package writes to it after
  \<open>CompileWithOptions\<close> has returned.
\<close>

record ('v, 'f) heapCol =
  hwidth :: "int"
  hwrite :: "('v, 'f) heap \<Rightarrow> bytes \<Rightarrow> 'v \<Rightarrow> bytes \<Rightarrow> error + (bytes \<times> bytes)"

record ('v, 'f) heapProgram =
  hheader :: "nat option"
  hunderline :: "nat option"
  hseparator :: "nat option"
  hcolumns :: "('v, 'f) heapCol list"

text \<open>
  \<open>makeWriter(f, noPad)\<close> in the store. The parameter \<open>f\<close> is a variable of its own,
  holding the struct the caller passed by value; the closure captures that variable and reads
  \<open>f.Width\<close> and the extractor from it when it is called. The \<open>switch f.Kind\<close> and
  the precision are evaluated when the closure is made. What the closure does with the
  struct it reads is the body of the matching branch of \<open>makeWriter\<close>.
\<close>

definition makeWriter_heap ::
  "'f golib \<Rightarrow> ('v, 'f) Field \<Rightarrow> bool \<Rightarrow> ('v, 'f) heap \<Rightarrow> ('v, 'f) heapCol \<times> ('v, 'f) heap" where
  "makeWriter_heap L f noPad h =
     (let (a, h1) = alloc (FieldVar f) h
      in (\<lparr>hwidth = Width f,
           hwrite = (\<lambda>h' line v tmp.
             case objs h' a of
               Some (FieldVar g) \<Rightarrow>
                 write' (makeWriter L (g\<lparr>Kind := Kind f, Precision := Precision f\<rparr>) noPad) line v tmp
             | _ \<Rightarrow> Inl PanicNilFunc)\<rparr>, h1))"

text \<open>The loop of \<open>CompileWithOptions\<close> that fills \<open>p.columns\<close>.\<close>

fun makeColumns ::
  "'f golib \<Rightarrow> Options \<Rightarrow> int \<Rightarrow> nat \<Rightarrow> ('v, 'f) Field list \<Rightarrow> ('v, 'f) heap \<Rightarrow>
   ('v, 'f) heapCol list \<times> ('v, 'f) heap" where
  "makeColumns L opts lastIdx i [] h = ([], h)"
| "makeColumns L opts lastIdx i (f # fs) h =
     (let isLast = (int i = lastIdx);
          noPad = (NoPadding opts \<or> (isLast \<and> \<not> PadLastColumn opts));
          (c, h1) = makeWriter_heap L f noPad h;
          (cs, h2) = makeColumns L opts lastIdx (Suc i) fs h1
      in (c # cs, h2))"

text \<open>
  \<open>CompileWithOptions\<close> in the store, for a registry pointer \<open>r\<close>. \<open>parseSpec\<close> reads
  the registry and returns a slice of \<open>Field\<close> structs, each a copy that \<open>get\<close> returned
  by value. The separator, the header and the underline are new byte arrays. The result is
  the program and the store after the allocations. A pointer that is not the address of a
  registry is not followed: the access panics.
\<close>

definition CompileWithOptions_heap ::
  "nat \<Rightarrow> 'f golib \<Rightarrow> choices \<Rightarrow> nat \<Rightarrow> string \<Rightarrow> Options \<Rightarrow> ('v, 'f) heap \<Rightarrow>
   (error + (('v, 'f) heapProgram \<times> ('v, 'f) heap)) option" where
  "CompileWithOptions_heap n L ch r spec opts h =
     (if spec = [] then Some (Inl EmptySpec)
      else
        (case objs h r of
           Some (RegistryObj reg) \<Rightarrow>
             (case parseSpec n L reg ch spec of
                None \<Rightarrow> None
              | Some (Inl err) \<Rightarrow> Some (Inl err)
              | Some (Inr fs) \<Rightarrow>
                  if length fs = 0 then Some (Inl NoFields)
                  else
                    (let sep = Separator opts;
                         (sepRef, h1) = alloc (ByteArray sep) h
                     in case (if \<not> NoHeader opts
                              then buildHeader fs sep (NoPadding opts) (PadLastColumn opts)
                              else Inr [])
                        of Inl e \<Rightarrow> Some (Inl e)
                         | Inr hdr \<Rightarrow>
                             (let (hdrRef, h2) =
                                    (if \<not> NoHeader opts
                                     then (let (a, h') = alloc (ByteArray hdr) h1 in (Some a, h'))
                                     else (None, h1));
                                  (ulRef, h3) =
                                    (if \<not> NoUnderline opts
                                     then (let (a, h') = alloc (ByteArray (buildUnderline hdr)) h2
                                           in (Some a, h'))
                                     else (None, h2));
                                  (cols, h4) = makeColumns L opts (int (length fs) - 1) 0 fs h3
                              in Some (Inr (\<lparr>hheader = hdrRef, hunderline = ulRef,
                                              hseparator = Some sepRef, hcolumns = cols\<rparr>, h4)))))
         | _ \<Rightarrow> Some (Inl PanicNilFunc)))"

text \<open>The methods of \<open>Program\<close> in the store.\<close>

definition HeaderString_heap :: "('v, 'f) heap \<Rightarrow> ('v, 'f) heapProgram \<Rightarrow> string" where
  "HeaderString_heap h p = readBytes h (hheader p)"

definition WriteHeader_heap ::
  "('w, 'e) Writer \<Rightarrow> 'w \<Rightarrow> ('v, 'f) heap \<Rightarrow> ('v, 'f) heapProgram \<Rightarrow> bytes \<Rightarrow> 'w \<times> 'e option \<times> bytes" where
  "WriteHeader_heap wr w h p line =
     (let line1 = [] @ readBytes h (hheader p);
          line2 = line1 @ [CHR 0x0A];
          (w1, err) = wr w line2
      in (w1, err, line2))"

definition WriteUnderline_heap ::
  "('w, 'e) Writer \<Rightarrow> 'w \<Rightarrow> ('v, 'f) heap \<Rightarrow> ('v, 'f) heapProgram \<Rightarrow> bytes \<Rightarrow> 'w \<times> 'e option \<times> bytes" where
  "WriteUnderline_heap wr w h p line =
     (let line1 = [] @ readBytes h (hunderline p);
          line2 = line1 @ [CHR 0x0A];
          (w1, err) = wr w line2
      in (w1, err, line2))"

fun WriteRow_heap_loop ::
  "('v, 'f) heap \<Rightarrow> ('v, 'f) heapProgram \<Rightarrow> nat \<Rightarrow> ('v, 'f) heapCol list \<Rightarrow> 'v \<Rightarrow> bytes \<Rightarrow> bytes \<Rightarrow>
   error + (bytes \<times> bytes)" where
  "WriteRow_heap_loop h p i [] v tmp line = Inr (line, tmp)"
| "WriteRow_heap_loop h p i (c # cs) v tmp line =
     (let line1 = (if i > 0 then line @ readBytes h (hseparator p) else line)
      in case hwrite c h line1 v tmp of
           Inl e \<Rightarrow> Inl e
         | Inr (line2, tmp2) \<Rightarrow> WriteRow_heap_loop h p (Suc i) cs v tmp2 line2)"

definition WriteRow_heap ::
  "('w, 'e) Writer \<Rightarrow> 'w \<Rightarrow> ('v, 'f) heap \<Rightarrow> ('v, 'f) heapProgram \<Rightarrow> 'v \<Rightarrow> bytes \<Rightarrow> bytes \<Rightarrow>
   error + ('w \<times> 'e option \<times> bytes \<times> bytes)" where
  "WriteRow_heap wr w h p v tmp line =
     (case WriteRow_heap_loop h p 0 (hcolumns p) v tmp [] of
        Inl e \<Rightarrow> Inl e
      | Inr (line1, tmp1) \<Rightarrow>
          (let line2 = line1 @ [CHR 0x0A];
               (w1, err) = wr w line2
           in Inr (w1, err, tmp1, line2)))"

fun FormatRow_heap_loop ::
  "('v, 'f) heap \<Rightarrow> ('v, 'f) heapProgram \<Rightarrow> nat \<Rightarrow> ('v, 'f) heapCol list \<Rightarrow> 'v \<Rightarrow> bytes \<Rightarrow> bytes \<Rightarrow>
   error + (bytes \<times> bytes)" where
  "FormatRow_heap_loop h p i [] v tmp line = Inr (line, tmp)"
| "FormatRow_heap_loop h p i (c # cs) v tmp line =
     (let line1 = (if i > 0 then line @ readBytes h (hseparator p) else line)
      in case hwrite c h line1 v tmp of
           Inl e \<Rightarrow> Inl e
         | Inr (line2, tmp2) \<Rightarrow> FormatRow_heap_loop h p (Suc i) cs v tmp2 line2)"

definition FormatRow_heap ::
  "('v, 'f) heap \<Rightarrow> ('v, 'f) heapProgram \<Rightarrow> 'v \<Rightarrow> bytes \<Rightarrow> bytes \<Rightarrow> error + (string \<times> bytes \<times> bytes)" where
  "FormatRow_heap h p v tmp line =
     (case FormatRow_heap_loop h p 0 (hcolumns p) v tmp [] of
        Inl e \<Rightarrow> Inl e
      | Inr (line1, tmp1) \<Rightarrow> Inr (line1, tmp1, line1))"

text \<open>
  The calls that change a catalog, with the registry pointer they are made on:
  \<open>reg.Field(...)...Register()\<close> with the field built, \<open>reg.DefineCollection\<close> and
  \<open>reg.SetDefaults\<close>. Each writes the maps of the registry at that address; on a pointer
  that is not the address of a registry the call panics and the store stays as it is.
\<close>

datatype ('v, 'f) mutation =
    Register nat "('v, 'f) Field"
  | Define nat string string "string list"
  | SetDefault nat string string

fun mutate :: "'f golib \<Rightarrow> ('v, 'f) heap \<Rightarrow> ('v, 'f) mutation \<Rightarrow> ('v, 'f) heap" where
  "mutate L h (Register r b) =
     (case objs h r of
        Some (RegistryObj reg) \<Rightarrow> h\<lparr>objs := (objs h)(r \<mapsto> RegistryObj (FieldBuilder_Register L b reg))\<rparr>
      | _ \<Rightarrow> h)"
| "mutate L h (Define r name defaultSpec fs) =
     (case objs h r of
        Some (RegistryObj reg) \<Rightarrow>
          h\<lparr>objs := (objs h)(r \<mapsto> RegistryObj (DefineCollection name defaultSpec fs reg))\<rparr>
      | _ \<Rightarrow> h)"
| "mutate L h (SetDefault r name spec) =
     (case objs h r of
        Some (RegistryObj reg) \<Rightarrow> h\<lparr>objs := (objs h)(r \<mapsto> RegistryObj (SetDefaults name spec reg))\<rparr>
      | _ \<Rightarrow> h)"

text \<open>
  \<open>keeps h h'\<close>: every object of \<open>h\<close> that is not a registry is at its address in
  \<open>h'\<close>, with the same contents.
\<close>

definition keeps :: "('v, 'f) heap \<Rightarrow> ('v, 'f) heap \<Rightarrow> bool" where
  "keeps h h' \<longleftrightarrow>
     (\<forall>a. (\<forall>f. objs h a = Some (FieldVar f) \<longrightarrow> objs h' a = Some (FieldVar f))
        \<and> (\<forall>b. objs h a = Some (ByteArray b) \<longrightarrow> objs h' a = Some (ByteArray b)))"

section \<open>Concrete inputs\<close>

text \<open>
  \<open>strings.ToLower\<close> on a string of ASCII bytes maps \<open>A..Z\<close> to \<open>a..z\<close>; this instance
  of the library is used where a concrete run is evaluated. No field of a concrete run
  below is of kind \<open>Float\<close>, so the type of floats is \<open>unit\<close> there.
\<close>

definition asciiLower :: "char \<Rightarrow> char" where
  "asciiLower c =
     (if 65 \<le> (of_char c :: nat) \<and> (of_char c :: nat) \<le> 90 then char_of (of_char c + (32 :: nat)) else c)"

definition asciiLib :: "unit golib" where
  "asciiLib = \<lparr>ToLower = map asciiLower, FormatFloat = (\<lambda>x prec. [])\<rparr>"

text \<open>The record type of the examples and tests: a name and an age.\<close>

record Person =
  Person_Name :: "string"
  Person_Age :: "int"

text \<open>The catalog of Scenario A: \<open>name\<close> (string, width 10) and \<open>age\<close> (int, width 4).\<close>

definition scenarioRegistry :: "(Person, unit) Registry" where
  "scenarioRegistry =
     FieldBuilder_Register asciiLib
       (FieldBuilder_Int (Some Person_Age)
          (FieldBuilder_Width 4 (Registry_Field ''age'' ''Age'' ''Age in years'')))
       (FieldBuilder_Register asciiLib
          (FieldBuilder_String (Some Person_Name)
             (FieldBuilder_Width 10 (Registry_Field ''name'' ''Name'' ''Person's name'')))
          NewRegistry)"

definition alice :: Person where
  "alice = \<lparr>Person_Name = ''Alice'', Person_Age = 30\<rparr>"

text \<open>Every \<open>range\<close> statement visiting the entry numbered \<open>k\<close> first.\<close>

definition always :: "nat \<Rightarrow> choices" where
  "always k = (\<lambda>p. k)"


text \<open>Scenario F: a string field of width 5, and a record whose name has ten bytes.\<close>

definition shortName :: "(Person, unit) Field" where
  "shortName =
     FieldBuilder_String (Some Person_Name)
       (FieldBuilder_Width 5 (Registry_Field ''name'' ''Name'' ''Person's name''))"

definition alexandria :: Person where
  "alexandria = \<lparr>Person_Name = ''Alexandria'', Person_Age = 33\<rparr>"

text \<open>The same catalog with two default specs, set by \<open>SetDefaults\<close>.\<close>

definition twoDefaults :: "(Person, unit) Registry" where
  "twoDefaults = SetDefaults ''alt'' ''age'' (SetDefaults ''main'' ''name'' scenarioRegistry)"

text \<open>The options of \<open>Example_csv\<close>.\<close>

definition csvOptions :: Options where
  "csvOptions = \<lparr>Separator = '','', NoPadding = True, PadLastColumn = False, NoHeader = False,
     NoUnderline = False\<rparr>"

text \<open>
  A store with the catalog of Scenario A at address 0 and nothing else, and three later
  changes to that catalog: \<open>name\<close> registered again with another display text, width,
  kind and extractor, a collection defined, and a default set.
\<close>

definition scenarioHeap :: "(Person, unit) heap" where
  "scenarioHeap = \<lparr>objs = (\<lambda>a. if a = 0 then Some (RegistryObj scenarioRegistry) else None),
     fresh = 1\<rparr>"

definition laterChanges :: "(Person, unit) mutation list" where
  "laterChanges =
     [Register 0 (FieldBuilder_Int (Some Person_Age)
                    (FieldBuilder_Width 20 (Registry_Field ''name'' ''Full name'' ''changed''))),
      Define 0 ''basic'' ''age'' [''age''],
      SetDefault 0 ''main'' ''age,name'']"

definition defaultOptions :: Options where
  "defaultOptions = \<lparr>Separator = ''  '', NoPadding = False, PadLastColumn = False, NoHeader = False,
     NoUnderline = False\<rparr>"

text \<open>
  The catalog of Scenario A with a collection \<open>basic\<close> (default spec \<open>name,age\<close>) and a
  collection \<open>all\<close> whose default spec refers to \<open>basic\<close>; and the same catalog with a
  collection \<open>loop\<close> whose default spec refers to itself.
\<close>

definition chainRegistry :: "(Person, unit) Registry" where
  "chainRegistry =
     DefineCollection ''all'' ''@basic'' [''name'', ''age'']
       (DefineCollection ''basic'' ''name,age'' [''name'', ''age''] scenarioRegistry)"

definition loopRegistry :: "(Person, unit) Registry" where
  "loopRegistry = DefineCollection ''loop'' ''name,@loop'' [''name''] scenarioRegistry"

text \<open>Two more records: a short name, and a name that ends with a space.\<close>

definition bob :: Person where
  "bob = \<lparr>Person_Name = ''Bob'', Person_Age = 25\<rparr>"

definition trailing :: Person where
  "trailing = \<lparr>Person_Name = ''a '', Person_Age = 0\<rparr>"

section \<open>Properties\<close>

subsection \<open>Padding and truncation\<close>

lemma padBytesLeft_truncates:
  "0 \<le> w \<Longrightarrow> w < int (length val) \<Longrightarrow> padBytesLeft dst val w = Inr (dst @ take (nat w) val)"
  by (simp add: padBytesLeft_def)

lemma padBytesLeft_pads:
  "int (length val) \<le> w \<Longrightarrow>
   padBytesLeft dst val w = Inr (dst @ val @ replicate (nat w - length val) (CHR '' ''))"
  by (simp add: padBytesLeft_def nat_diff_distrib')

text \<open>
  What a column built by \<open>makeWriter\<close> does with a field that has a formatted value:
  it appends the padded or truncated value to the line, whatever \<open>noPad\<close> is.
\<close>

lemma makeWriter_formatted:
  assumes "formatted L f v = Some s"
  shows "map_sum id fst (write' (makeWriter L f noPad) line v tmp) = padBytesLeft line s (Width f)"
  using assms
  by (auto simp: formatted_def makeWriter_def padLeft_def Let_def
           KindString_def KindInt_def KindFloat_def KindCustom_def
           split: if_splits option.splits sum.splits)

lemma makeWriter_write:
  assumes "formatted L f v = Some s"
  shows "write' (makeWriter L f noPad) line v tmp =
           map_sum id (\<lambda>line1. (line1, if Kind f = KindString then tmp else s))
             (padBytesLeft line s (Width f))"
  using assms
  by (auto simp: formatted_def makeWriter_def padLeft_def Let_def
           KindString_def KindInt_def KindFloat_def KindCustom_def
           split: if_splits option.splits sum.splits)

text \<open>
  C4. A column of positive width \<open>w\<close> whose formatted value is longer than \<open>w\<close> bytes
  appends exactly \<open>w\<close> bytes to the line of the row, and they are the first \<open>w\<close> bytes of
  the value: in the row loops of \<open>FormatRow\<close> and \<open>WriteRow\<close> the line goes on to the
  next column with the separator (behind a first column) and these \<open>w\<close> bytes added.
\<close>

theorem truncation_is_prefix_of_width:
  assumes "formatted L f v = Some s" and "0 < Width f" and "Width f < int (length s)"
  shows "map_sum id fst (write' (makeWriter L f noPad) line v tmp) = Inr (line @ take (nat (Width f)) s)
         \<and> int (length (take (nat (Width f)) s)) = Width f
         \<and> take (nat (Width f)) s \<noteq> s
         \<and> FormatRow_loop p i (makeWriter L f noPad # cs) v tmp line =
             FormatRow_loop p (Suc i) cs v (if Kind f = KindString then tmp else s)
               ((if 0 < i then line @ separator p else line) @ take (nat (Width f)) s)
         \<and> WriteRow_loop p i (makeWriter L f noPad # cs) v tmp line =
             WriteRow_loop p (Suc i) cs v (if Kind f = KindString then tmp else s)
               ((if 0 < i then line @ separator p else line) @ take (nat (Width f)) s)"
proof -
  have trunc: "padBytesLeft line' s (Width f) = Inr (line' @ take (nat (Width f)) s)" for line'
    using assms(2,3) by (simp add: padBytesLeft_truncates)
  have "map_sum id fst (write' (makeWriter L f noPad) line v tmp) = padBytesLeft line s (Width f)"
    using assms(1) by (rule makeWriter_formatted)
  then have col: "map_sum id fst (write' (makeWriter L f noPad) line v tmp)
                    = Inr (line @ take (nat (Width f)) s)"
    by (simp only: trunc)
  have "length (take (nat (Width f)) s) = nat (Width f)"
    using assms(2,3) by simp
  then have len: "int (length (take (nat (Width f)) s)) = Width f"
    using assms(2) by simp
  have proper: "take (nat (Width f)) s \<noteq> s"
    using assms(2,3) by (metis len less_irrefl)
  have step: "write' (makeWriter L f noPad) line' v tmp =
                Inr (line' @ take (nat (Width f)) s, if Kind f = KindString then tmp else s)" for line'
    by (simp add: makeWriter_write [OF assms(1)] trunc)
  have "FormatRow_loop p i (makeWriter L f noPad # cs) v tmp line =
             FormatRow_loop p (Suc i) cs v (if Kind f = KindString then tmp else s)
               ((if 0 < i then line @ separator p else line) @ take (nat (Width f)) s)"
    by (simp add: step Let_def)
  moreover have "WriteRow_loop p i (makeWriter L f noPad # cs) v tmp line =
             WriteRow_loop p (Suc i) cs v (if Kind f = KindString then tmp else s)
               ((if 0 < i then line @ separator p else line) @ take (nat (Width f)) s)"
    by (simp add: step Let_def)
  ultimately show ?thesis
    using col len proper by blast
qed


lemma shortName_simps:
  "Width shortName = 5" "Kind shortName = KindString" "GetString shortName = Some Person_Name"
  by (simp_all add: shortName_def FieldBuilder_String_def FieldBuilder_Width_def Registry_Field_def)

lemma formatted_shortName: "formatted L shortName v = Some (Person_Name v)"
  by (simp add: formatted_def shortName_simps)

theorem truncation_is_prefix_of_width_witness:
  "formatted asciiLib shortName alexandria = Some ''Alexandria''
   \<and> 0 < Width shortName \<and> Width shortName < int (length ''Alexandria'')
   \<and> map_sum id fst (write' (makeWriter asciiLib shortName False) [] alexandria []) = Inr ''Alexa''"
proof -
  have h1: "formatted asciiLib shortName alexandria = Some ''Alexandria''"
    by (simp add: formatted_shortName alexandria_def)
  have h2: "0 < Width shortName" and h3: "Width shortName < int (length ''Alexandria'')"
    by (simp_all add: shortName_simps)
  from truncation_is_prefix_of_width [OF h1 h2 h3, where noPad = False and line = "[]" and tmp = "[]"
      and i = 0 and cs = "[]" and p = "\<lparr>header = [], underline = [], separator = [], columns = []\<rparr>"]
  have "map_sum id fst (write' (makeWriter asciiLib shortName False) [] alexandria [])
        = Inr (take (nat (Width shortName)) ''Alexandria'')"
    by simp
  then show ?thesis
    using h1 h2 h3 by (simp add: shortName_simps)
qed


lemma trimTrailingSpaces_padding:
  assumes "s = [] \<or> last s \<noteq> CHR '' ''"
  shows "trimTrailingSpaces (s @ replicate n (CHR '' '')) = s"
proof -
  have "dropWhile (\<lambda>c. c = CHR '' '') (replicate n (CHR '' '') @ rev s)
        = dropWhile (\<lambda>c. c = CHR '' '') (rev s)"
    by (rule dropWhile_append2) simp
  moreover have "dropWhile (\<lambda>c. c = CHR '' '') (rev s) = rev s"
    using assms by (cases s rule: rev_cases) simp_all
  ultimately show ?thesis
    by (simp add: trimTrailingSpaces_def)
qed

text \<open>
  C5, as the code has it. For a padded column and a formatted value of at most \<open>width\<close>
  bytes that does not itself end with an ASCII space, the column appends the value followed by
  spaces up to \<open>width\<close>, and right-trimming those bytes gives the value back.
\<close>

theorem padding_round_trip:
  assumes "formatted L f v = Some s" and "int (length s) \<le> Width f"
    and "s = [] \<or> last s \<noteq> CHR '' ''"
  shows "map_sum id fst (write' (makeWriter L f False) line v tmp)
           = Inr (line @ s @ replicate (nat (Width f) - length s) (CHR '' ''))
         \<and> length (s @ replicate (nat (Width f) - length s) (CHR '' '')) = nat (Width f)
         \<and> trimTrailingSpaces (s @ replicate (nat (Width f) - length s) (CHR '' '')) = s"
proof -
  have "map_sum id fst (write' (makeWriter L f False) line v tmp) = padBytesLeft line s (Width f)"
    using assms(1) by (rule makeWriter_formatted)
  then have "map_sum id fst (write' (makeWriter L f False) line v tmp)
               = Inr (line @ s @ replicate (nat (Width f) - length s) (CHR '' ''))"
    using assms(2) by (simp add: padBytesLeft_pads)
  moreover have "length s \<le> nat (Width f)"
    using assms(2) by linarith
  ultimately show ?thesis
    using assms(3) by (simp add: trimTrailingSpaces_padding)
qed

theorem padding_round_trip_witness:
  "formatted asciiLib shortName bob = Some ''Bob'' \<and> int (length ''Bob'') \<le> Width shortName
   \<and> (''Bob'' = [] \<or> last ''Bob'' \<noteq> CHR '' '')
   \<and> map_sum id fst (write' (makeWriter asciiLib shortName False) [] bob []) = Inr ''Bob  ''
   \<and> trimTrailingSpaces ''Bob  '' = ''Bob''"
proof -
  have h1: "formatted asciiLib shortName bob = Some ''Bob''"
    by (simp add: formatted_shortName bob_def)
  have h2: "int (length ''Bob'') \<le> Width shortName"
    by (simp add: shortName_simps)
  have h3: "''Bob'' = [] \<or> last ''Bob'' \<noteq> CHR '' ''"
    by simp
  have pad: "''Bob'' @ replicate (nat (Width shortName) - length ''Bob'') (CHR '' '') = ''Bob  ''"
    by (simp add: shortName_simps eval_nat_numeral)
  show ?thesis
    using padding_round_trip [OF h1 h2 h3, of "[]" "[]"] h1 h2 unfolding pad by simp
qed

text \<open>
  C5 as stated fails where the value ends with a space: the value \<open>''a ''\<close> in a padded
  column of width 5 is rendered as \<open>''a    ''\<close>, which right-trims to \<open>''a''\<close>.
\<close>

theorem padding_round_trip_counterexample:
  "formatted asciiLib shortName trailing = Some ''a '' \<and> int (length ''a '') \<le> Width shortName
   \<and> map_sum id (trimTrailingSpaces \<circ> fst) (write' (makeWriter asciiLib shortName False) [] trailing [])
       = Inr ''a''
   \<and> ''a'' \<noteq> ''a ''"
  by (simp add: formatted_shortName trailing_def shortName_simps makeWriter_def padLeft_def
        padBytesLeft_def trimTrailingSpaces_def KindString_def eval_nat_numeral)


subsection \<open>Rendering a row\<close>

lemma WriteRow_loop_FormatRow_loop:
  "WriteRow_loop p i cs v tmp line = FormatRow_loop p i cs v tmp line"
proof (induction cs arbitrary: i tmp line)
  case Nil
  show ?case by simp
next
  case (Cons c cs)
  show ?case
    by (simp add: Cons.IH Let_def split: sum.splits prod.splits)
qed

text \<open>
  C9. \<open>WriteRow\<close> hands the sink one byte sequence, the string \<open>FormatRow\<close> returns for
  the same program, record and buffers followed by a newline, and it calls \<open>Write\<close> once:
  a sink that records its calls has exactly that one entry more afterwards. When a column
  panics, both functions panic and the sink is not called.
\<close>

theorem FormatRow_is_WriteRow_line:
  "WriteRow wr w p v tmp line =
     (case FormatRow p v tmp line of
        Inl e \<Rightarrow> Inl e
      | Inr (s, tmp1, line1) \<Rightarrow>
          Inr (fst (wr w (s @ [CHR 0x0A])), snd (wr w (s @ [CHR 0x0A])), tmp1, s @ [CHR 0x0A]))
   \<and> map_sum id fst (WriteRow logWrite calls p v tmp line)
       = map_sum id (\<lambda>r. calls @ [fst r @ [CHR 0x0A]]) (FormatRow p v tmp line)"
  by (simp add: WriteRow_def FormatRow_def WriteRow_loop_FormatRow_loop logWrite_def Let_def
           split: sum.splits prod.splits)


subsection \<open>Tokens of a spec\<close>

declare parseTokens.simps(2) [simp del]

lemma TrimSpace_at_default: "TrimSpace ''@default'' = ''@default''"
  by code_simp

lemma Split_at_default: "Split ''@default'' (CHR '','') = [''@default'']"
  by simp

lemma rangeFirst_empty: "rangeFirst k [] = None"
  by (simp add: rangeFirst_def)

text \<open>
  C10. On a catalog without default specs the token \<open>@default\<close> adds no field and raises no
  error: the loop goes on with the next token and the fields it had. A spec that is only
  \<open>@default\<close> therefore fails with "no fields specified".
\<close>

theorem default_token_without_defaults:
  assumes "defaults reg = []"
  shows "(TrimSpace tok0 = ''@default'' \<longrightarrow>
            parseTokens rec L reg ch i (tok0 # toks) fs = parseTokens rec L reg ch (Suc i) toks fs)
         \<and> parseSpec (Suc n) L reg ch ''@default'' = Some (Inr [])
         \<and> CompileWithOptions (Suc n) L ch reg ''@default'' opts = Some (Inl NoFields)"
proof -
  have step: "parseTokens rec' L reg ch i' (tok0' # toks') fs' = parseTokens rec' L reg ch (Suc i') toks' fs'"
    if "TrimSpace tok0' = ''@default''" for rec' i' tok0' toks' and fs' :: "('a, 'b) Field list"
    using that assms by (simp add: parseTokens.simps HasPrefix_def rangeFirst_empty)
  have parse: "parseSpec (Suc n) L reg ch ''@default'' = Some (Inr [])"
    by (simp add: Split_at_default step [OF TrimSpace_at_default] del: Split.simps)
  have "CompileWithOptions (Suc n) L ch reg ''@default'' opts = Some (Inl NoFields)"
    unfolding CompileWithOptions_def parse by simp
  with step parse show ?thesis
    by blast
qed

theorem default_token_without_defaults_witness:
  "defaults scenarioRegistry = []
   \<and> Compile 1 asciiLib (always 0) scenarioRegistry ''@default'' = Some (Inl NoFields)"
proof -
  have h: "defaults scenarioRegistry = []"
    by (simp add: scenarioRegistry_def FieldBuilder_Register_def NewRegistry_def Let_def)
  from default_token_without_defaults [OF h, where L = asciiLib and ch = "always 0" and n = 0]
  show ?thesis
    using h by (simp add: Compile_def)
qed


subsection \<open>Scenario A\<close>

text \<open>
  C3, as the code has it. With the catalog of Scenario A, the spec \<open>name,age\<close> and the
  default options, the header is \<open>Name\<close> padded to 10 bytes, the separator of two spaces
  and \<open>Age\<close>; the row for Alice, 30 begins with \<open>Alice\<close> padded to 10 bytes, the
  separator and \<open>30\<close>.
\<close>

theorem scenario_A:
  "headerOf (Compile (Suc n) asciiLib ch scenarioRegistry ''name,age'') = Some (Inr ''Name        Age'')
   \<and> map_option (map_sum id (take 14)) (rowOf (Compile (Suc n) asciiLib ch scenarioRegistry ''name,age'') alice)
       = Some (Inr ''Alice       30'')"
  by code_simp

theorem scenario_A_witness:
  "headerOf (Compile 1 asciiLib (always 0) scenarioRegistry ''name,age'') = Some (Inr ''Name        Age'')
   \<and> map_option (map_sum id (take 14)) (rowOf (Compile 1 asciiLib (always 0) scenarioRegistry ''name,age'') alice)
       = Some (Inr ''Alice       30'')"
  using scenario_A [of 0 "always 0"] by simp

text \<open>
  C3 as stated fails: the header has eight spaces between \<open>Name\<close> and \<open>Age\<close> (six of
  padding and two of separator), not six, and the row is not \<open>Alice\<close>, five spaces, \<open>30\<close>.
\<close>

theorem scenario_A_counterexample:
  "headerOf (Compile 1 asciiLib (always 0) scenarioRegistry ''name,age'') \<noteq> Some (Inr ''Name      Age'')
   \<and> rowOf (Compile 1 asciiLib (always 0) scenarioRegistry ''name,age'') alice \<noteq> Some (Inr ''Alice     30'')"
  by code_simp

subsection \<open>What the compiled columns do with the no-pad flag, and with several defaults\<close>

text \<open>
  C1 on the code: \<open>makeWriter\<close> builds the same column whether \<open>noPad\<close> is set or not.
  At the input of \<open>TestFormatString\<close> and of \<open>Example_csv\<close>, the last column of the
  default options, and every column under \<open>NoPadding\<close>, is therefore still padded to its
  width.
\<close>

theorem no_pad_columns_are_padded:
  "makeWriter L f True = makeWriter L f False
   \<and> rowOf (Compile 1 asciiLib (always 0) scenarioRegistry ''name'') alice = Some (Inr ''Alice     '')
   \<and> rowOf (CompileWithOptions 1 asciiLib (always 0) scenarioRegistry ''name,age'' csvOptions) bob
       = Some (Inr ''Bob       ,25  '')"
proof -
  have "makeWriter L f True = makeWriter L f False"
    by (simp add: makeWriter_def)
  moreover have
    "rowOf (Compile 1 asciiLib (always 0) scenarioRegistry ''name'') alice = Some (Inr ''Alice     '')
     \<and> rowOf (CompileWithOptions 1 asciiLib (always 0) scenarioRegistry ''name,age'' csvOptions) bob
         = Some (Inr ''Bob       ,25  '')"
    by code_simp
  ultimately show ?thesis
    by (rule conjI)
qed

text \<open>
  C2 at a catalog with two default specs: the spec \<open>@default\<close> compiles to the \<open>name\<close>
  column when the \<open>range\<close> loop visits the first entry of the map first, and to the
  \<open>age\<close> column when it visits the second one first.
\<close>

theorem default_choice_changes_row:
  "rowOf (Compile 2 asciiLib (always 0) twoDefaults ''@default'') alice = Some (Inr ''Alice     '')
   \<and> rowOf (Compile 2 asciiLib (always 1) twoDefaults ''@default'') alice = Some (Inr ''30  '')"
  by code_simp


subsection \<open>Width overrides\<close>

lemma IndexByte_first: "c \<notin> set nm \<Longrightarrow> IndexByte (nm @ c # ws) c = int (length nm)"
proof (induction nm)
  case Nil
  show ?case by simp
next
  case (Cons x nm)
  then show ?case by (auto simp: Let_def)
qed

lemma Split_single: "sep \<notin> set s \<Longrightarrow> Split s sep = [s]"
  by (induction s) auto

lemma TrimSpace_Nil: "TrimSpace [] = []"
  by code_simp

lemma HasPrefix_at_append: "HasPrefix (nm @ CHR '':'' # ws) ''@'' = HasPrefix nm ''@''"
  by (cases nm) (auto simp: HasPrefix_def)

lemma parseFieldSpec_colon:
  assumes "CHR '':'' \<notin> set nm"
  shows "parseFieldSpec (nm @ CHR '':'' # ws) =
     (if TrimSpace ws = [] then Inl (EmptyWidth (nm @ CHR '':'' # ws))
      else (case Atoi (TrimSpace ws) of
              None \<Rightarrow> Inl (InvalidWidthString (TrimSpace ws) (nm @ CHR '':'' # ws))
            | Some w \<Rightarrow> Inr (TrimSpace nm, w, True)))"
  using assms by (simp add: parseFieldSpec_def IndexByte_first Let_def nat_add_distrib)

text \<open>
  C6, as the code has it. Take a token that, trimmed, is \<open>nm:ws\<close> (no colon in \<open>nm\<close>,
  no \<open>@\<close> in front) and whose width string is unparsable or parses to a non-positive
  number. When the loop reaches it, parsing fails: with the empty-width or invalid-width
  error of \<open>parseFieldSpec\<close> when the width string is empty or unparsable, whether or not
  the name is registered; for a parsed non-positive width with the invalid-width error when
  the name is registered, and with the unknown-field error when it is not. A spec that
  consists of this one token fails to compile with the same error.
\<close>

theorem invalid_width_token:
  assumes "TrimSpace tok0 = nm @ CHR '':'' # ws" and "CHR '':'' \<notin> set nm" and "\<not> HasPrefix nm ''@''"
    and "case Atoi (TrimSpace ws) of None \<Rightarrow> True | Some w \<Rightarrow> w \<le> 0"
  shows "(let e = (if TrimSpace ws = [] then EmptyWidth (TrimSpace tok0)
                   else (case Atoi (TrimSpace ws) of
                           None \<Rightarrow> InvalidWidthString (TrimSpace ws) (TrimSpace tok0)
                         | Some w \<Rightarrow>
                             (case get L reg (TrimSpace nm) of
                                None \<Rightarrow> UnknownField (TrimSpace nm)
                              | Some f \<Rightarrow> InvalidWidth w (TrimSpace nm))))
          in parseTokens rec L reg ch i (tok0 # toks) fs = Some (Inl e)
             \<and> (CHR '','' \<notin> set tok0 \<longrightarrow>
                  CompileWithOptions (Suc n) L ch reg tok0 opts = Some (Inl e)))"
proof -
  have loop: "parseTokens rec' L reg ch i' (tok0 # toks') fs' =
           Some (Inl (if TrimSpace ws = [] then EmptyWidth (TrimSpace tok0)
                      else (case Atoi (TrimSpace ws) of
                              None \<Rightarrow> InvalidWidthString (TrimSpace ws) (TrimSpace tok0)
                            | Some w \<Rightarrow>
                                (case get L reg (TrimSpace nm) of
                                   None \<Rightarrow> UnknownField (TrimSpace nm)
                                 | Some f \<Rightarrow> InvalidWidth w (TrimSpace nm)))))"
    for rec' i' toks' and fs' :: "('a, 'b) Field list"
    using assms
    by (simp add: parseTokens.simps(2) HasPrefix_at_append parseFieldSpec_colon split: option.splits)
  have "tok0 \<noteq> []"
    using assms(1) TrimSpace_Nil by auto
  then have "CHR '','' \<notin> set tok0 \<Longrightarrow>
      CompileWithOptions (Suc n) L ch reg tok0 opts =
        Some (Inl (if TrimSpace ws = [] then EmptyWidth (TrimSpace tok0)
                      else (case Atoi (TrimSpace ws) of
                              None \<Rightarrow> InvalidWidthString (TrimSpace ws) (TrimSpace tok0)
                            | Some w \<Rightarrow>
                                (case get L reg (TrimSpace nm) of
                                   None \<Rightarrow> UnknownField (TrimSpace nm)
                                 | Some f \<Rightarrow> InvalidWidth w (TrimSpace nm)))))"
    by (simp add: CompileWithOptions_def Split_single loop del: Split.simps)
  with loop show ?thesis
    by (simp add: Let_def)
qed

theorem invalid_width_token_witness:
  "TrimSpace '' name : -3 '' = ''name '' @ CHR '':'' # '' -3''
   \<and> CHR '':'' \<notin> set ''name '' \<and> \<not> HasPrefix ''name '' ''@''
   \<and> (case Atoi (TrimSpace '' -3'') of None \<Rightarrow> True | Some w \<Rightarrow> w \<le> 0)
   \<and> headerOf (Compile 1 asciiLib (always 0) scenarioRegistry '' name : -3 '')
       = Some (Inl (InvalidWidth (- 3) ''name''))"
proof -
  have h1: "TrimSpace '' name : -3 '' = ''name '' @ CHR '':'' # '' -3''"
    by code_simp
  have h2: "CHR '':'' \<notin> set ''name ''"
    by simp
  have h3: "\<not> HasPrefix ''name '' ''@''"
    by (simp add: HasPrefix_def)
  have w: "TrimSpace '' -3'' = ''-3''" "Atoi ''-3'' = Some (- 3)" "TrimSpace ''name '' = ''name''"
    by code_simp+
  have h4: "case Atoi (TrimSpace '' -3'') of None \<Rightarrow> True | Some w \<Rightarrow> w \<le> 0"
    by (simp add: w)
  have "map_option Name (get asciiLib scenarioRegistry ''name'') = Some ''name''"
    by code_simp
  then obtain f where g: "get asciiLib scenarioRegistry ''name'' = Some f"
    by blast
  have "CHR '','' \<notin> set '' name : -3 ''"
    by simp
  with invalid_width_token [OF h1 h2 h3 h4, where L = asciiLib and reg = scenarioRegistry
      and ch = "always 0" and n = 0]
  have "Compile 1 asciiLib (always 0) scenarioRegistry '' name : -3 ''
          = Some (Inl (InvalidWidth (- 3) ''name''))"
    unfolding Compile_def Let_def w g by simp
  then show ?thesis
    using h1 h2 h3 h4 by (simp add: headerOf_def)
qed

text \<open>
  C6 as stated fails for a non-positive width on a name that is not registered: the field is
  looked up before the width is checked, so \<open>xyz:0\<close> fails with "unknown field".
\<close>

theorem invalid_width_token_counterexample:
  "headerOf (Compile 1 asciiLib (always 0) scenarioRegistry ''xyz:0'') = Some (Inl (UnknownField ''xyz''))
   \<and> UnknownField ''xyz'' \<noteq> InvalidWidth 0 ''xyz''"
  by code_simp


subsection \<open>Programs and later changes of the catalog\<close>

lemma keeps_refl: "keeps h h"
  by (simp add: keeps_def)

lemma keeps_trans: "keeps h1 h2 \<Longrightarrow> keeps h2 h3 \<Longrightarrow> keeps h1 h3"
  by (simp add: keeps_def)

lemma keeps_mutate: "keeps h (mutate L h m)"
  by (cases m) (auto simp: keeps_def split: option.splits obj.splits)

lemma keeps_foldl_mutate: "keeps h (foldl (mutate L) h ms)"
proof (induction ms arbitrary: h)
  case Nil
  show ?case by (simp add: keeps_refl)
next
  case (Cons m ms)
  have "keeps h (mutate L h m)"
    by (rule keeps_mutate)
  moreover have "keeps (mutate L h m) (foldl (mutate L) (mutate L h m) ms)"
    by (rule Cons.IH)
  ultimately show ?case
    by (simp add: keeps_trans)
qed

lemma readBytes_keeps:
  "objs h a = Some (ByteArray b) \<Longrightarrow> keeps h h' \<Longrightarrow> readBytes h' (Some a) = b"
  by (simp add: keeps_def readBytes_def)

lemma makeWriter_heap_write:
  assumes "makeWriter_heap L f noPad h = (c, h1)" and "objs h' (fresh h) = Some (FieldVar f)"
  shows "hwrite c h' = write' (makeWriter L f noPad)"
  using assms by (auto simp: makeWriter_heap_def alloc_def fun_eq_iff)

lemma makeWriter_heap_store:
  assumes "makeWriter_heap L f noPad h = (c, h1)"
  shows "fresh h1 = Suc (fresh h)" and "objs h1 = (objs h)(fresh h \<mapsto> FieldVar f)"
  using assms by (auto simp: makeWriter_heap_def alloc_def)

text \<open>
  The columns \<open>makeColumns\<close> builds write, in every store that keeps the store they were
  built in, what the columns of \<open>CompileWithOptions\<close> write.
\<close>

lemma makeColumns_columns:
  assumes "makeColumns L opts lastIdx i fs h = (cs, h1)"
  shows "fresh h \<le> fresh h1 \<and> (\<forall>a<fresh h. objs h1 a = objs h a) \<and>
         (\<forall>h'. keeps h1 h' \<longrightarrow>
            map (\<lambda>c. hwrite c h') cs =
            map write' (map (\<lambda>(i, f). makeWriter L f (NoPadding opts \<or> (int i = lastIdx \<and> \<not> PadLastColumn opts)))
                          (enumerate i fs)))"
  using assms
proof (induction fs arbitrary: i h cs h1)
  case Nil
  then show ?case by simp
next
  case (Cons f fs)
  let ?noPad = "NoPadding opts \<or> (int i = lastIdx \<and> \<not> PadLastColumn opts)"
  obtain c hA where mk: "makeWriter_heap L f ?noPad h = (c, hA)"
    by (cases "makeWriter_heap L f ?noPad h")
  obtain cs' hB where rest: "makeColumns L opts lastIdx (Suc i) fs hA = (cs', hB)"
    by (cases "makeColumns L opts lastIdx (Suc i) fs hA")
  from Cons.prems mk rest have cs: "cs = c # cs'" and h1: "h1 = hB"
    by (simp_all add: Let_def)
  note st = makeWriter_heap_store [OF mk]
  from Cons.IH [OF rest] have le: "fresh hA \<le> fresh hB"
    and same: "\<And>a. a < fresh hA \<Longrightarrow> objs hB a = objs hA a"
    and cols: "\<And>h'. keeps hB h' \<Longrightarrow>
            map (\<lambda>c. hwrite c h') cs' =
            map write' (map (\<lambda>(i, f). makeWriter L f (NoPadding opts \<or> (int i = lastIdx \<and> \<not> PadLastColumn opts)))
                          (enumerate (Suc i) fs))"
    by blast+
  have var: "objs hB (fresh h) = Some (FieldVar f)"
    using same [of "fresh h"] st by simp
  have "hwrite c h' = write' (makeWriter L f ?noPad)" if "keeps hB h'" for h'
  proof -
    from var that have "objs h' (fresh h) = Some (FieldVar f)"
      by (simp add: keeps_def)
    with mk show ?thesis
      by (rule makeWriter_heap_write)
  qed
  moreover have "objs hB a = objs h a" if "a < fresh h" for a
    using that same [of a] st by simp
  moreover have "fresh h \<le> fresh hB"
    using le st by simp
  ultimately show ?case
    using cols by (simp add: cs h1)
qed

lemma FormatRow_heap_loop_eq:
  assumes "readBytes h (hseparator p) = separator p0"
  shows "map (\<lambda>c. hwrite c h) cs = map write' cs0 \<Longrightarrow>
         FormatRow_heap_loop h p i cs v tmp line = FormatRow_loop p0 i cs0 v tmp line"
proof (induction cs arbitrary: cs0 i tmp line)
  case Nil
  then show ?case by simp
next
  case (Cons c cs)
  then obtain c0 cs0' where cs0: "cs0 = c0 # cs0'" and c: "hwrite c h = write' c0"
    and rest: "map (\<lambda>c. hwrite c h) cs = map write' cs0'"
    by (cases cs0) auto
  show ?case
    by (simp add: cs0 c assms Let_def Cons.IH [OF rest] split: sum.splits prod.splits)
qed

lemma WriteRow_heap_loop_eq:
  assumes "readBytes h (hseparator p) = separator p0"
  shows "map (\<lambda>c. hwrite c h) cs = map write' cs0 \<Longrightarrow>
         WriteRow_heap_loop h p i cs v tmp line = WriteRow_loop p0 i cs0 v tmp line"
proof (induction cs arbitrary: cs0 i tmp line)
  case Nil
  then show ?case by simp
next
  case (Cons c cs)
  then obtain c0 cs0' where cs0: "cs0 = c0 # cs0'" and c: "hwrite c h = write' c0"
    and rest: "map (\<lambda>c. hwrite c h) cs = map write' cs0'"
    by (cases cs0) auto
  show ?case
    by (simp add: cs0 c assms Let_def Cons.IH [OF rest] split: sum.splits prod.splits)
qed

text \<open>
  The program \<open>CompileWithOptions\<close> builds in the store renders, in every store that keeps
  the one it was built in, what the program compiled from the registry's contents at that
  moment renders.
\<close>

lemma CompileWithOptions_heap_program:
  assumes reg: "objs h r = Some (RegistryObj reg)"
    and c: "CompileWithOptions_heap n L ch r spec opts h = Some (Inr (p, h1))"
  shows "\<exists>p0. CompileWithOptions n L ch reg spec opts = Some (Inr p0) \<and>
           (\<forall>h'. keeps h1 h' \<longrightarrow>
              readBytes h' (hheader p) = header p0 \<and> readBytes h' (hunderline p) = underline p0 \<and>
              readBytes h' (hseparator p) = separator p0 \<and>
              map (\<lambda>c. hwrite c h') (hcolumns p) = map write' (columns p0))"
proof -
  let ?sep = "Separator opts"
  from c reg obtain fs where spec: "spec \<noteq> []" and ps: "parseSpec n L reg ch spec = Some (Inr fs)"
    and ne: "length fs \<noteq> 0"
    by (auto simp: CompileWithOptions_heap_def split: if_splits option.splits sum.splits)
  let ?hdrR = "if \<not> NoHeader opts then buildHeader fs ?sep (NoPadding opts) (PadLastColumn opts) else Inr []"
  from c reg spec ps ne obtain hdr where hdr: "?hdrR = Inr hdr"
    by (cases ?hdrR) (auto simp: CompileWithOptions_heap_def Let_def split: prod.splits)
  let ?hS = "snd (alloc (ByteArray ?sep) h)"
  let ?hH = "if \<not> NoHeader opts then snd (alloc (ByteArray hdr) ?hS) else ?hS"
  let ?hU = "if \<not> NoUnderline opts then snd (alloc (ByteArray (buildUnderline hdr)) ?hH) else ?hH"
  let ?hdrRef = "if \<not> NoHeader opts then Some (fresh ?hS) else None"
  let ?ulRef = "if \<not> NoUnderline opts then Some (fresh ?hH) else None"
  obtain cols h4 where mc: "makeColumns L opts (int (length fs) - 1) 0 fs ?hU = (cols, h4)"
    by (cases "makeColumns L opts (int (length fs) - 1) 0 fs ?hU")
  from c reg spec ps ne hdr mc
  have p: "p = \<lparr>hheader = ?hdrRef, hunderline = ?ulRef, hseparator = Some (fresh h), hcolumns = cols\<rparr>"
    and h1: "h1 = h4"
    by (auto simp: CompileWithOptions_heap_def Let_def alloc_def split: if_splits prod.splits)
  let ?p0 = "\<lparr>header = hdr, underline = (if \<not> NoUnderline opts then buildUnderline hdr else []),
              separator = ?sep,
              columns = map (\<lambda>(i, f). makeWriter L f (NoPadding opts \<or> (int i = int (length fs) - 1 \<and> \<not> PadLastColumn opts)))
                          (enumerate 0 fs)\<rparr>"
  have p0: "CompileWithOptions n L ch reg spec opts = Some (Inr ?p0)"
    using spec ps ne hdr by (auto simp: CompileWithOptions_def Let_def)
  from makeColumns_columns [OF mc]
  have same: "\<And>a. a < fresh ?hU \<Longrightarrow> objs h4 a = objs ?hU a"
    and colsEq: "\<And>h'. keeps h4 h' \<Longrightarrow> map (\<lambda>c. hwrite c h') cols = map write' (columns ?p0)"
    by simp_all
  have sepAt: "objs h4 (fresh h) = Some (ByteArray ?sep)"
    using same [of "fresh h"] by (simp add: alloc_def)
  have hdrAt: "objs h4 (fresh ?hS) = Some (ByteArray hdr)" if "\<not> NoHeader opts"
    using that same [of "fresh ?hS"] by (simp add: alloc_def)
  have ulAt: "objs h4 (fresh ?hH) = Some (ByteArray (buildUnderline hdr))" if "\<not> NoUnderline opts"
    using that same [of "fresh ?hH"] by (simp add: alloc_def)
  have "readBytes h' (hheader p) = header ?p0 \<and> readBytes h' (hunderline p) = underline ?p0 \<and>
        readBytes h' (hseparator p) = separator ?p0 \<and>
        map (\<lambda>c. hwrite c h') (hcolumns p) = map write' (columns ?p0)" if k: "keeps h1 h'" for h'
  proof -
    from k have k4: "keeps h4 h'"
      by (simp add: h1)
    have "readBytes h' (hseparator p) = ?sep"
      using readBytes_keeps [OF sepAt k4] by (simp add: p)
    moreover have "readBytes h' (hheader p) = hdr"
    proof (cases "NoHeader opts")
      case True
      with hdr show ?thesis by (simp add: p readBytes_def)
    next
      case False
      then show ?thesis
        using readBytes_keeps [OF hdrAt k4] by (simp add: p)
    qed
    moreover have "readBytes h' (hunderline p) = (if \<not> NoUnderline opts then buildUnderline hdr else [])"
    proof (cases "NoUnderline opts")
      case True
      then show ?thesis by (simp add: p readBytes_def)
    next
      case False
      then show ?thesis
        using readBytes_keeps [OF ulAt k4] by (simp add: p)
    qed
    moreover have "map (\<lambda>c. hwrite c h') (hcolumns p) = map write' (columns ?p0)"
      using colsEq [OF k4] by (simp add: p)
    ultimately show ?thesis
      by simp
  qed
  with p0 show ?thesis
    by blast
qed

text \<open>
  C7. Once \<open>CompileWithOptions\<close> has built a program from the catalog at address \<open>r\<close>,
  any sequence of registrations, collection definitions and default settings, on that
  catalog or on any other, leaves what the program renders as it was: its header, its
  underline and what \<open>FormatRow\<close> and \<open>WriteRow\<close> produce are, after the changes, those of
  the program compiled from the catalog as it was when \<open>CompileWithOptions\<close> ran, and so
  the same as before the changes.
\<close>

theorem program_unchanged_by_catalog_mutation:
  assumes "objs h r = Some (RegistryObj reg)"
    and "CompileWithOptions_heap n L ch r spec opts h = Some (Inr (p, h1))"
  shows "\<exists>p0. CompileWithOptions n L ch reg spec opts = Some (Inr p0)
           \<and> HeaderString_heap (foldl (mutate L') h1 ms) p = HeaderString p0
           \<and> readBytes (foldl (mutate L') h1 ms) (hunderline p) = underline p0
           \<and> WriteHeader_heap wr w (foldl (mutate L') h1 ms) p line = WriteHeader wr w p0 line
           \<and> WriteUnderline_heap wr w (foldl (mutate L') h1 ms) p line = WriteUnderline wr w p0 line
           \<and> FormatRow_heap (foldl (mutate L') h1 ms) p v tmp line = FormatRow p0 v tmp line
           \<and> WriteRow_heap wr w (foldl (mutate L') h1 ms) p v tmp line = WriteRow wr w p0 v tmp line
           \<and> HeaderString_heap (foldl (mutate L') h1 ms) p = HeaderString_heap h1 p
           \<and> readBytes (foldl (mutate L') h1 ms) (hunderline p) = readBytes h1 (hunderline p)
           \<and> FormatRow_heap (foldl (mutate L') h1 ms) p v tmp line = FormatRow_heap h1 p v tmp line
           \<and> WriteRow_heap wr w (foldl (mutate L') h1 ms) p v tmp line = WriteRow_heap wr w h1 p v tmp line"
proof -
  from CompileWithOptions_heap_program [OF assms] obtain p0
    where p0: "CompileWithOptions n L ch reg spec opts = Some (Inr p0)"
      and rd: "\<And>h'. keeps h1 h' \<Longrightarrow>
              readBytes h' (hheader p) = header p0 \<and> readBytes h' (hunderline p) = underline p0 \<and>
              readBytes h' (hseparator p) = separator p0 \<and>
              map (\<lambda>c. hwrite c h') (hcolumns p) = map write' (columns p0)"
    by blast
  have out: "HeaderString_heap h' p = HeaderString p0 \<and> readBytes h' (hunderline p) = underline p0
           \<and> WriteHeader_heap wr w h' p line = WriteHeader wr w p0 line
           \<and> WriteUnderline_heap wr w h' p line = WriteUnderline wr w p0 line
           \<and> FormatRow_heap h' p v tmp line = FormatRow p0 v tmp line
           \<and> WriteRow_heap wr w h' p v tmp line = WriteRow wr w p0 v tmp line" if "keeps h1 h'" for h'
  proof -
    note r = rd [OF that]
    from r have sep: "readBytes h' (hseparator p) = separator p0"
      and cols: "map (\<lambda>c. hwrite c h') (hcolumns p) = map write' (columns p0)"
      by simp_all
    have "FormatRow_heap h' p v tmp line = FormatRow p0 v tmp line"
      by (simp add: FormatRow_heap_def FormatRow_def FormatRow_heap_loop_eq [OF sep cols])
    moreover have "WriteRow_heap wr w h' p v tmp line = WriteRow wr w p0 v tmp line"
      by (simp add: WriteRow_heap_def WriteRow_def WriteRow_heap_loop_eq [OF sep cols])
    ultimately show ?thesis
      using r by (simp add: HeaderString_heap_def HeaderString_def WriteHeader_heap_def WriteHeader_def
            WriteUnderline_heap_def WriteUnderline_def)
  qed
  from out [OF keeps_foldl_mutate, of L' ms] out [OF keeps_refl] p0 show ?thesis
    by auto
qed

theorem program_unchanged_by_catalog_mutation_witness:
  "objs scenarioHeap 0 = Some (RegistryObj scenarioRegistry)
   \<and> (\<exists>p h1. CompileWithOptions_heap 1 asciiLib (always 0) 0 ''name,age'' defaultOptions scenarioHeap
                 = Some (Inr (p, h1))
          \<and> HeaderString_heap (foldl (mutate asciiLib) h1 laterChanges) p = ''Name        Age''
          \<and> readBytes (foldl (mutate asciiLib) h1 laterChanges) (hunderline p) = ''----        ---''
          \<and> map_sum id fst (FormatRow_heap (foldl (mutate asciiLib) h1 laterChanges) p alice [] [])
              = Inr ''Alice       30  ''
          \<and> map_option (map_sum id (\<lambda>(p2, h2). HeaderString_heap h2 p2))
               (CompileWithOptions_heap 1 asciiLib (always 0) 0 ''name,age'' defaultOptions
                  (foldl (mutate asciiLib) h1 laterChanges))
              = Some (Inr ''Full name             Age''))"
proof -
  have reg: "objs scenarioHeap 0 = Some (RegistryObj scenarioRegistry)"
    by (simp add: scenarioHeap_def)
  have "map_option (map_sum id (\<lambda>(p, h1).
            map_option (map_sum id (\<lambda>(p2, h2). HeaderString_heap h2 p2))
              (CompileWithOptions_heap 1 asciiLib (always 0) 0 ''name,age'' defaultOptions
                 (foldl (mutate asciiLib) h1 laterChanges))))
          (CompileWithOptions_heap 1 asciiLib (always 0) 0 ''name,age'' defaultOptions scenarioHeap)
        = Some (Inr (Some (Inr ''Full name             Age'')))"
    by code_simp
  then have e: "map_option (map_sum id (\<lambda>(p, h1).
            map_option (map_sum id (\<lambda>(p2, h2). HeaderString_heap h2 p2))
              (CompileWithOptions_heap 1 asciiLib (always 0) 0 ''name,age'' defaultOptions
                 (foldl (mutate asciiLib) h1 laterChanges))))
          (CompileWithOptions_heap 1 asciiLib (always 0) 0 ''name,age'' defaultOptions scenarioHeap)
        = Some (Inr (Some (Inr ''Full name             Age'')))" .
  obtain p h1
    where c: "CompileWithOptions_heap 1 asciiLib (always 0) 0 ''name,age'' defaultOptions scenarioHeap
                = Some (Inr (p, h1))"
  proof (cases "CompileWithOptions_heap 1 asciiLib (always 0) 0 ''name,age'' defaultOptions scenarioHeap")
    case None
    with e show ?thesis by simp
  next
    case (Some x)
    show ?thesis
    proof (cases x)
      case (Inl er)
      with Some e show ?thesis by simp
    next
      case (Inr ph)
      with Some that show ?thesis by (cases ph) simp
    qed
  qed
  have again: "map_option (map_sum id (\<lambda>(p2, h2). HeaderString_heap h2 p2))
               (CompileWithOptions_heap 1 asciiLib (always 0) 0 ''name,age'' defaultOptions
                  (foldl (mutate asciiLib) h1 laterChanges))
              = Some (Inr ''Full name             Age'')"
    using e unfolding c by simp
  from program_unchanged_by_catalog_mutation [OF reg c, where L' = asciiLib and ms = laterChanges
      and v = alice and tmp = "[]" and line = "[]" and wr = logWrite and w = "[]"]
  obtain p0 where p0: "CompileWithOptions 1 asciiLib (always 0) scenarioRegistry ''name,age'' defaultOptions
                        = Some (Inr p0)"
    and hd: "HeaderString_heap (foldl (mutate asciiLib) h1 laterChanges) p = HeaderString p0"
    and ul: "readBytes (foldl (mutate asciiLib) h1 laterChanges) (hunderline p) = underline p0"
    and row: "FormatRow_heap (foldl (mutate asciiLib) h1 laterChanges) p alice [] [] = FormatRow p0 alice [] []"
    by blast
  have vals: "headerOf (CompileWithOptions 1 asciiLib (always 0) scenarioRegistry ''name,age'' defaultOptions)
          = Some (Inr ''Name        Age'')"
    "map_option (map_sum id underline)
           (CompileWithOptions 1 asciiLib (always 0) scenarioRegistry ''name,age'' defaultOptions)
          = Some (Inr ''----        ---'')"
    "rowOf (CompileWithOptions 1 asciiLib (always 0) scenarioRegistry ''name,age'' defaultOptions) alice
          = Some (Inr ''Alice       30  '')"
    by code_simp+
  have "HeaderString p0 = ''Name        Age''" and "underline p0 = ''----        ---''"
    and "map_sum id fst (FormatRow p0 alice [] []) = Inr ''Alice       30  ''"
    using vals unfolding p0 headerOf_def rowOf_def by simp_all
  with reg c again hd ul row show ?thesis
    by auto
qed

subsection \<open>Termination of the expansion\<close>

lemma HasPrefix_nonempty: "HasPrefix tok ''@'' \<Longrightarrow> tok \<noteq> []"
  by (auto simp: HasPrefix_def)

lemma rangeFirst_Some:
  assumes "rangeFirst k m = Some s"
  shows "\<exists>key. key \<in> set (map fst (AList.clearjunk m)) \<and> map_of m key = Some s"
proof -
  let ?es = "AList.clearjunk m"
  from assms have ne: "?es \<noteq> []" and s: "s = snd (?es ! (k mod length ?es))"
    by (auto simp: rangeFirst_def Let_def split: if_splits)
  let ?e = "?es ! (k mod length ?es)"
  from ne have mem: "?e \<in> set ?es"
    by simp
  then have "(fst ?e, snd ?e) \<in> set ?es"
    by simp
  then have "map_of ?es (fst ?e) = Some (snd ?e)"
    by (intro map_of_is_SomeI) simp_all
  then have "map_of m (fst ?e) = Some s"
    by (simp add: map_of_clearjunk s)
  moreover from mem have "fst ?e \<in> set (map fst ?es)"
    by simp
  ultimately show ?thesis
    by blast
qed

text \<open>The loop returns when every recursive call it can make returns.\<close>

lemma parseTokens_returns:
  assumes "\<And>tok0 k s i. tok0 \<in> set toks \<Longrightarrow> k \<in> set (tokenRefs reg tok0) \<Longrightarrow>
             map_of (defaults reg) k = Some s \<Longrightarrow> rec i s \<noteq> None"
  shows "parseTokens rec L reg ch i toks fs \<noteq> None"
  using assms
proof (induction toks arbitrary: i fs)
  case Nil
  show ?case by simp
next
  case (Cons tok0 toks)
  have IH: "parseTokens rec L reg ch i' toks fs' \<noteq> None" for i' fs'
  proof (rule Cons.IH)
    fix t k s j
    assume "t \<in> set toks" "k \<in> set (tokenRefs reg t)" "map_of (defaults reg) k = Some s"
    then show "rec j s \<noteq> None"
      using Cons.prems [of t k s j] by simp
  qed
  then have IH2: "\<exists>y. parseTokens rec L reg ch i' toks fs' = Some y" for i' fs'
    by simp
  show ?case
  proof (cases "TrimSpace tok0 = []")
    case True
    then show ?thesis by (simp add: parseTokens.simps(2) IH)
  next
    case ne: False
    show ?thesis
    proof (cases "HasPrefix (TrimSpace tok0) ''@''")
      case False
      with ne show ?thesis
        by (auto simp: parseTokens.simps(2) IH IH2 Let_def split: sum.splits option.splits prod.splits)
    next
      case at: True
      show ?thesis
      proof (cases "drop 1 (TrimSpace tok0) = ''default''")
        case True
        show ?thesis
        proof (cases "rangeFirst (ch [i]) (defaults reg)")
          case None
          with ne at True show ?thesis
            by (simp add: parseTokens.simps(2) IH)
        next
          case (Some defSpec)
          from rangeFirst_Some [OF Some] obtain key
            where "key \<in> set (map fst (AList.clearjunk (defaults reg)))"
              and "map_of (defaults reg) key = Some defSpec"
            by blast
          moreover have "tokenRefs reg tok0 = map fst (AList.clearjunk (defaults reg))"
            using at True by (simp add: tokenRefs_def)
          ultimately have "rec i defSpec \<noteq> None"
            using Cons.prems [of tok0 key defSpec i] by simp
          with ne at True Some show ?thesis
            by (auto simp: parseTokens.simps(2) IH IH2 split: sum.splits option.splits)
        qed
      next
        case False
        show ?thesis
        proof (cases "map_of (defaults reg) (drop 1 (TrimSpace tok0))")
          case None
          with ne at False show ?thesis
            by (simp add: parseTokens.simps(2))
        next
          case (Some defSpec)
          have "tokenRefs reg tok0 = [drop 1 (TrimSpace tok0)]"
            using at False Some by (simp add: tokenRefs_def)
          then have "rec i defSpec \<noteq> None"
            using Cons.prems [of tok0 "drop 1 (TrimSpace tok0)" defSpec i] Some by simp
          with ne at False Some show ?thesis
            by (auto simp: parseTokens.simps(2) IH IH2 split: sum.splits option.splits)
        qed
      qed
    qed
  qed
qed

text \<open>A deeper stack changes nothing for a call that returned.\<close>

lemma parseTokens_mono:
  assumes "\<And>i s r. rec i s = Some r \<Longrightarrow> rec' i s = Some r"
    and "parseTokens rec L reg ch i toks fs = Some r"
  shows "parseTokens rec' L reg ch i toks fs = Some r"
  using assms(2)
proof (induction toks arbitrary: i fs)
  case Nil
  then show ?case by simp
next
  case (Cons tok0 toks)
  from Cons.prems show ?case
    by (auto simp: parseTokens.simps(2) Let_def Cons.IH assms(1)
        split: if_splits option.splits sum.splits prod.splits)
qed

lemma parseSpec_Suc:
  "parseSpec n L reg ch spec = Some r \<Longrightarrow> parseSpec (Suc n) L reg ch spec = Some r"
proof (induction n arbitrary: ch spec r)
  case 0
  then show ?case by simp
next
  case (Suc n)
  from Suc.prems show ?case
    by (simp del: parseSpec.simps add: parseSpec.simps(2) [of n] parseSpec.simps(2) [of "Suc n"])
       (erule parseTokens_mono [rotated], erule Suc.IH)
qed

lemma parseSpec_mono:
  "n \<le> m \<Longrightarrow> parseSpec n L reg ch spec = Some r \<Longrightarrow> parseSpec m L reg ch spec = Some r"
  by (induction m) (auto simp: le_Suc_eq dest: parseSpec_Suc simp del: parseSpec.simps)


lemma parseSpec_returns_mono:
  "n \<le> m \<Longrightarrow> parseSpec n L reg ch spec \<noteq> None \<Longrightarrow> parseSpec m L reg ch spec \<noteq> None"
  using parseSpec_mono [of n m L reg ch spec] by fastforce

lemma map_of_key: "map_of D k = Some s \<Longrightarrow> k \<in> fst ` set D"
  by (metis fst_conv image_eqI map_of_SomeD)

lemma tokenRefs_keys:
  assumes "k \<in> set (tokenRefs reg tok0)"
  shows "k \<in> fst ` set (defaults reg)"
proof (cases "drop 1 (TrimSpace tok0) = ''default''")
  case True
  with assms have "k \<in> fst ` set (AList.clearjunk (defaults reg))"
    by (auto simp: tokenRefs_def Let_def split: if_splits)
  then show ?thesis
    by (simp only: dom_clearjunk)
next
  case False
  with assms have "map_of (defaults reg) k \<noteq> None"
    by (cases "map_of (defaults reg) (drop 1 (TrimSpace tok0))")
       (auto simp: tokenRefs_def Let_def split: if_splits)
  then show ?thesis
    by (auto dest: map_of_key)
qed

lemma finite_refGraph: "finite (refGraph reg)"
proof -
  have "refGraph reg \<subseteq> fst ` set (defaults reg) \<times> fst ` set (defaults reg)"
    by (auto simp: refGraph_def specRefs_def dest: tokenRefs_keys map_of_key)
  then show ?thesis
    by (rule finite_subset) simp
qed

lemma common_depth:
  assumes "\<forall>k\<in>set ks. \<forall>s. map_of D k = Some s \<longrightarrow> (\<exists>n. \<forall>ch. parseSpec n L reg ch s \<noteq> None)"
  shows "\<exists>N. \<forall>k\<in>set ks. \<forall>s. map_of D k = Some s \<longrightarrow> (\<forall>ch. parseSpec N L reg ch s \<noteq> None)"
  using assms
proof (induction ks)
  case Nil
  show ?case by simp
next
  case (Cons k ks)
  then obtain N where N: "\<forall>k\<in>set ks. \<forall>s. map_of D k = Some s \<longrightarrow> (\<forall>ch. parseSpec N L reg ch s \<noteq> None)"
    by auto
  show ?case
  proof (cases "map_of D k")
    case None
    with N show ?thesis by auto
  next
    case (Some s)
    with Cons.prems obtain n where n: "\<forall>ch. parseSpec n L reg ch s \<noteq> None"
      by auto
    have "parseSpec (max N n) L reg ch s' \<noteq> None" if "k' \<in> set (k # ks)" "map_of D k' = Some s'"
      for k' s' ch
    proof (cases "k' = k")
      case True
      with that Some have "parseSpec n L reg ch s' \<noteq> None"
        using n by simp
      then show ?thesis
        by (rule parseSpec_returns_mono [rotated]) simp
    next
      case False
      with that have "parseSpec N L reg ch s' \<noteq> None"
        using N by simp
      then show ?thesis
        by (rule parseSpec_returns_mono [rotated]) simp
    qed
    then show ?thesis
      by blast
  qed
qed

lemma parseSpec_returns_step:
  assumes "\<forall>k\<in>set (specRefs reg spec). \<forall>s. map_of (defaults reg) k = Some s \<longrightarrow>
             (\<exists>n. \<forall>ch. parseSpec n L reg ch s \<noteq> None)"
  shows "\<exists>n. \<forall>ch. parseSpec n L reg ch spec \<noteq> None"
proof -
  from common_depth [OF assms] obtain N
    where N: "\<And>k s ch. k \<in> set (specRefs reg spec) \<Longrightarrow> map_of (defaults reg) k = Some s \<Longrightarrow>
                parseSpec N L reg ch s \<noteq> None"
    by blast
  have "parseSpec (Suc N) L reg ch spec \<noteq> None" for ch
    unfolding parseSpec.simps
  proof (rule parseTokens_returns)
    fix tok0 k s i
    assume "tok0 \<in> set (Split spec (CHR '',''))" "k \<in> set (tokenRefs reg tok0)"
      and s: "map_of (defaults reg) k = Some s"
    then have "k \<in> set (specRefs reg spec)"
      by (auto simp: specRefs_def)
    then show "parseSpec N L reg (shift ch i) s \<noteq> None"
      using s by (rule N)
  qed
  then show ?thesis
    by blast
qed

lemma acyclic_returns:
  assumes "acyclic (refGraph reg)"
  shows "\<exists>n. \<forall>ch. parseSpec n L reg ch spec \<noteq> None"
proof -
  have "wf (refGraph reg)"
    using finite_refGraph assms by (rule finite_acyclic_wf)
  then have "\<forall>s. map_of (defaults reg) k = Some s \<longrightarrow> (\<exists>n. \<forall>ch. parseSpec n L reg ch s \<noteq> None)" for k
  proof (induction k rule: wf_induct_rule)
    case (less k)
    show ?case
    proof (intro allI impI)
      fix s
      assume s: "map_of (defaults reg) k = Some s"
      show "\<exists>n. \<forall>ch. parseSpec n L reg ch s \<noteq> None"
      proof (rule parseSpec_returns_step, intro ballI)
        fix k'
        assume "k' \<in> set (specRefs reg s)"
        with s have "(k', k) \<in> refGraph reg"
          by (auto simp: refGraph_def)
        then show "\<forall>s'. map_of (defaults reg) k' = Some s' \<longrightarrow> (\<exists>n. \<forall>ch. parseSpec n L reg ch s' \<noteq> None)"
          by (rule less.IH)
      qed
    qed
  qed
  then show ?thesis
    by (intro parseSpec_returns_step) blast
qed

lemma parseTokens_Cons:
  "parseTokens rec L reg ch i (tok0 # toks) fs =
     (case parseTokens rec L reg ch i [tok0] fs of
        None \<Rightarrow> None
      | Some (Inl e) \<Rightarrow> Some (Inl e)
      | Some (Inr fs') \<Rightarrow> parseTokens rec L reg ch (Suc i) toks fs')"
proof (cases "TrimSpace tok0 = []")
  case True
  then show ?thesis
    by (simp add: parseTokens.simps(2))
next
  case ne: False
  show ?thesis
  proof (cases "HasPrefix (TrimSpace tok0) ''@''")
    case False
    show ?thesis
    proof (cases "parseFieldSpec (TrimSpace tok0)")
      case (Inl e)
      with ne False show ?thesis
        by (simp add: parseTokens.simps(2))
    next
      case (Inr t)
      obtain fieldName w hasWidth where t: "t = (fieldName, w, hasWidth)"
        by (cases t)
      show ?thesis
      proof (cases "get L reg fieldName")
        case None
        with ne False Inr t show ?thesis
          by (simp add: parseTokens.simps(2))
      next
        case (Some field)
        with ne False Inr t show ?thesis
          by (simp add: parseTokens.simps(2))
      qed
    qed
  next
    case at: True
    show ?thesis
    proof (cases "drop 1 (TrimSpace tok0) = ''default''")
      case True
      show ?thesis
      proof (cases "rangeFirst (ch [i]) (defaults reg)")
        case None
        with ne at True show ?thesis
          by (simp add: parseTokens.simps(2))
      next
        case (Some defSpec)
        with ne at True show ?thesis
          by (cases "rec i defSpec") (simp_all add: parseTokens.simps(2) split: sum.splits)
      qed
    next
      case False
      show ?thesis
      proof (cases "map_of (defaults reg) (drop 1 (TrimSpace tok0))")
        case None
        with ne at False show ?thesis
          by (simp add: parseTokens.simps(2))
      next
        case (Some defSpec)
        with ne at False show ?thesis
          by (cases "rec i defSpec") (simp_all add: parseTokens.simps(2) split: sum.splits)
      qed
    qed
  qed
qed

lemma parseTokens_append:
  "parseTokens rec L reg ch i (xs @ ys) fs =
     (case parseTokens rec L reg ch i xs fs of
        None \<Rightarrow> None
      | Some (Inl e) \<Rightarrow> Some (Inl e)
      | Some (Inr fs') \<Rightarrow> parseTokens rec L reg ch (i + length xs) ys fs')"
proof (induction xs arbitrary: i fs)
  case Nil
  show ?case by simp
next
  case (Cons x xs)
  have "parseTokens rec L reg ch i ((x # xs) @ ys) fs =
     (case parseTokens rec L reg ch i [x] fs of
        None \<Rightarrow> None
      | Some (Inl e) \<Rightarrow> Some (Inl e)
      | Some (Inr fs') \<Rightarrow> parseTokens rec L reg ch (Suc i) (xs @ ys) fs')"
    using parseTokens_Cons [of rec L reg ch i x "xs @ ys" fs] by simp
  moreover have "parseTokens rec L reg ch i (x # xs) fs =
     (case parseTokens rec L reg ch i [x] fs of
        None \<Rightarrow> None
      | Some (Inl e) \<Rightarrow> Some (Inl e)
      | Some (Inr fs') \<Rightarrow> parseTokens rec L reg ch (Suc i) xs fs')"
    by (rule parseTokens_Cons)
  ultimately show ?case
    by (simp add: Cons.IH split: option.splits sum.splits)
qed

lemma call_diverges:
  assumes reach: "reachesToken L reg ch spec j" and ref: "refAt spec j = Some k"
    and def: "map_of (defaults reg) k = Some s"
    and div: "parseSpec n L reg (shift ch j) s = None"
  shows "parseSpec (Suc n) L reg ch spec = None"
proof -
  let ?toks = "Split spec (CHR '','')"
  let ?rec = "\<lambda>m i defSpec. parseSpec m L reg (shift ch i) defSpec"
  from reach obtain m fs where j: "j < length ?toks"
    and pre: "parseTokens (?rec m) L reg ch 0 (take j ?toks) [] = Some (Inr fs)"
    by (auto simp: reachesToken_def)
  from ref j have tok: "HasPrefix (TrimSpace (?toks ! j)) ''@''"
      "drop 1 (TrimSpace (?toks ! j)) \<noteq> ''default''" "drop 1 (TrimSpace (?toks ! j)) = k"
    by (auto simp: refAt_def Let_def split: if_splits)
  have split: "?toks = take j ?toks @ (?toks ! j) # drop (Suc j) ?toks"
    using j by (simp add: id_take_nth_drop)
  have here: "parseTokens (?rec n) L reg ch j ((?toks ! j) # rest) fs' = None" for rest fs'
    using tok def div HasPrefix_nonempty [OF tok(1)] by (simp add: parseTokens.simps(2))
  have "parseTokens (?rec n) L reg ch 0 (take j ?toks) [] \<noteq> Some (Inl e)" for e
  proof
    assume e: "parseTokens (?rec n) L reg ch 0 (take j ?toks) [] = Some (Inl e)"
    show False
    proof (cases "n \<le> m")
      case True
      have "parseTokens (?rec m) L reg ch 0 (take j ?toks) [] = Some (Inl e)"
        using e by (rule parseTokens_mono [rotated]) (rule parseSpec_mono [OF True])
      with pre show False by simp
    next
      case False
      then have "m \<le> n" by simp
      have "parseTokens (?rec n) L reg ch 0 (take j ?toks) [] = Some (Inr fs)"
        using pre by (rule parseTokens_mono [rotated]) (rule parseSpec_mono [OF \<open>m \<le> n\<close>])
      with e show False by simp
    qed
  qed
  then have "parseTokens (?rec n) L reg ch 0 (take j ?toks @ (?toks ! j) # drop (Suc j) ?toks) [] = None"
    using j by (auto simp: parseTokens_append here split: option.splits sum.splits)
  with split show ?thesis
    by simp
qed

lemma cycle_diverges:
  assumes closed: "\<forall>k\<in>K. \<exists>s. map_of (defaults reg) k = Some s \<and>
             (\<forall>ch. \<exists>j k'. reachesToken L reg ch s j \<and> refAt s j = Some k' \<and> k' \<in> K)"
    and k: "k \<in> K" and s: "map_of (defaults reg) k = Some s"
  shows "parseSpec n L reg ch s = None"
  using k s
proof (induction n arbitrary: k s ch)
  case 0
  show ?case by simp
next
  case (Suc n)
  from closed Suc.prems obtain j k'
    where reach: "reachesToken L reg ch s j" and ref: "refAt s j = Some k'" and k': "k' \<in> K"
    by force
  from closed k' obtain s' where s': "map_of (defaults reg) k' = Some s'"
    by blast
  have "parseSpec n L reg (shift ch j) s' = None"
    using k' s' by (rule Suc.IH)
  with reach ref s' show ?case
    by (rule call_diverges)
qed


text \<open>
  C8. When the reference graph of the catalog is acyclic, the expansion of every spec
  returns: there is a stack depth, the same for every choice the runtime makes in the
  \<open>range\<close> loops, from which on \<open>parseSpec\<close> returns one and the same result. When there
  is a set \<open>K\<close> of collection names such that the default spec of each of them reaches a
  reference to a member of \<open>K\<close> (a default spec that refers to its own collection, directly
  when \<open>K\<close> has one name and through the others otherwise), then a spec that reaches a
  reference to a member of \<open>K\<close> does not return within any stack depth.
\<close>

theorem expansion_termination:
  "(acyclic (refGraph reg) \<longrightarrow>
      (\<exists>n. \<forall>ch. \<exists>r. \<forall>m\<ge>n. parseSpec m L reg ch spec = Some r))
   \<and> ((\<forall>k\<in>K. \<exists>s. map_of (defaults reg) k = Some s \<and>
              (\<forall>ch. \<exists>j k'. reachesToken L reg ch s j \<and> refAt s j = Some k' \<and> k' \<in> K))
        \<and> reachesToken L reg ch spec j \<and> refAt spec j = Some k \<and> k \<in> K \<longrightarrow>
      (\<forall>n. parseSpec n L reg ch spec = None))"
proof (intro conjI impI)
  assume "acyclic (refGraph reg)"
  then obtain n where n: "\<And>ch. parseSpec n L reg ch spec \<noteq> None"
    using acyclic_returns [of reg L spec] by blast
  have "\<exists>r. \<forall>m\<ge>n. parseSpec m L reg ch spec = Some r" for ch
  proof -
    from n [of ch] obtain r where "parseSpec n L reg ch spec = Some r"
      by blast
    then have "\<forall>m\<ge>n. parseSpec m L reg ch spec = Some r"
      by (blast intro: parseSpec_mono)
    then show ?thesis ..
  qed
  then show "\<exists>n. \<forall>ch. \<exists>r. \<forall>m\<ge>n. parseSpec m L reg ch spec = Some r"
    by blast
next
  assume a: "(\<forall>k\<in>K. \<exists>s. map_of (defaults reg) k = Some s \<and>
              (\<forall>ch. \<exists>j k'. reachesToken L reg ch s j \<and> refAt s j = Some k' \<and> k' \<in> K))
        \<and> reachesToken L reg ch spec j \<and> refAt spec j = Some k \<and> k \<in> K"
  then have closed: "\<forall>k\<in>K. \<exists>s. map_of (defaults reg) k = Some s \<and>
              (\<forall>ch. \<exists>j k'. reachesToken L reg ch s j \<and> refAt s j = Some k' \<and> k' \<in> K)"
    and reach: "reachesToken L reg ch spec j" and ref: "refAt spec j = Some k" and k: "k \<in> K"
    by blast+
  from closed k obtain s where s: "map_of (defaults reg) k = Some s"
    by blast
  show "\<forall>n. parseSpec n L reg ch spec = None"
  proof
    fix n
    show "parseSpec n L reg ch spec = None"
    proof (cases n)
      case 0
      then show ?thesis by simp
    next
      case (Suc n')
      have "parseSpec n' L reg (shift ch j) s = None"
        using closed k s by (rule cycle_diverges)
      with reach ref s show ?thesis
        unfolding Suc by (rule call_diverges)
    qed
  qed
qed

lemma defaults_chain: "defaults chainRegistry = [(''basic'', ''name,age''), (''all'', ''@basic'')]"
  by (simp add: chainRegistry_def DefineCollection_def scenarioRegistry_def FieldBuilder_Register_def
        NewRegistry_def Let_def)

lemma specRefs_chain:
  "specRefs chainRegistry ''name,age'' = []" "specRefs chainRegistry ''@basic'' = [''basic'']"
  by code_simp+

lemma acyclic_chain: "acyclic (refGraph chainRegistry)"
proof -
  have "refGraph chainRegistry \<subseteq> {(''basic'', ''all'')}"
    by (auto simp: refGraph_def defaults_chain specRefs_chain split: if_splits)
  moreover have "acyclic ({} :: (string \<times> string) set)"
    by (simp add: acyclic_def)
  then have "acyclic {(''basic'', ''all'')}"
    by simp
  ultimately show ?thesis
    by (rule acyclic_subset [rotated])
qed

lemma defaults_loop: "map_of (defaults loopRegistry) ''loop'' = Some ''name,@loop''"
  by (simp add: loopRegistry_def DefineCollection_def scenarioRegistry_def FieldBuilder_Register_def
        NewRegistry_def Let_def)

lemma parseSpec_0_fun: "(\<lambda>i. parseSpec 0 L reg (shift ch i)) = (\<lambda>i defSpec. None)"
  by (simp add: fun_eq_iff)

lemma reaches_loop:
  "reachesToken asciiLib loopRegistry ch ''name,@loop'' 1"
  "reachesToken asciiLib loopRegistry ch ''age,@loop'' 1"
proof -
  have "case parseTokens (\<lambda>i defSpec. parseSpec 0 asciiLib loopRegistry (shift ch i) defSpec)
               asciiLib loopRegistry ch 0 (take 1 (Split ''name,@loop'' (CHR '',''))) []
        of Some (Inr fs) \<Rightarrow> True | _ \<Rightarrow> False"
    by code_simp
  moreover have "1 < length (Split ''name,@loop'' (CHR '',''))"
    by simp
  ultimately show "reachesToken asciiLib loopRegistry ch ''name,@loop'' 1"
    unfolding reachesToken_def
    by (intro conjI exI [of _ 0]) (auto simp: parseSpec_0_fun split: option.splits sum.splits)
  have "case parseTokens (\<lambda>i defSpec. parseSpec 0 asciiLib loopRegistry (shift ch i) defSpec)
               asciiLib loopRegistry ch 0 (take 1 (Split ''age,@loop'' (CHR '',''))) []
        of Some (Inr fs) \<Rightarrow> True | _ \<Rightarrow> False"
    by code_simp
  moreover have "1 < length (Split ''age,@loop'' (CHR '',''))"
    by simp
  ultimately show "reachesToken asciiLib loopRegistry ch ''age,@loop'' 1"
    unfolding reachesToken_def
    by (intro conjI exI [of _ 0]) (auto simp: parseSpec_0_fun split: option.splits sum.splits)
qed

lemma refAt_loop: "refAt ''name,@loop'' 1 = Some ''loop''" "refAt ''age,@loop'' 1 = Some ''loop''"
  by code_simp+

theorem expansion_termination_witness:
  "acyclic (refGraph chainRegistry)
   \<and> (\<exists>n. \<forall>ch m. parseSpec (n + m) asciiLib chainRegistry ch ''@all'' \<noteq> None)
   \<and> map_of (defaults loopRegistry) ''loop'' = Some ''name,@loop''
   \<and> (\<forall>ch. reachesToken asciiLib loopRegistry ch ''name,@loop'' 1)
   \<and> refAt ''name,@loop'' 1 = Some ''loop''
   \<and> reachesToken asciiLib loopRegistry (always 0) ''age,@loop'' 1
   \<and> refAt ''age,@loop'' 1 = Some ''loop''
   \<and> (\<forall>n. parseSpec n asciiLib loopRegistry (always 0) ''age,@loop'' = None)"
proof -
  have closed: "\<forall>k\<in>{''loop''}. \<exists>s. map_of (defaults loopRegistry) k = Some s \<and>
          (\<forall>ch. \<exists>j k'. reachesToken asciiLib loopRegistry ch s j \<and> refAt s j = Some k' \<and> k' \<in> {''loop''})"
    using defaults_loop reaches_loop(1) refAt_loop(1) by blast
  obtain n where n: "\<And>ch. \<exists>r. \<forall>m\<ge>n. parseSpec m asciiLib chainRegistry ch ''@all'' = Some r"
    using expansion_termination [of chainRegistry asciiLib "''@all''" "{}" "always 0" 0 "''x''"]
      acyclic_chain by blast
  have "parseSpec (n + m) asciiLib chainRegistry ch ''@all'' \<noteq> None" for ch m
    using n [of ch] by (metis le_add1 option.distinct(1))
  then have one: "\<exists>n. \<forall>ch m. parseSpec (n + m) asciiLib chainRegistry ch ''@all'' \<noteq> None"
    by blast
  have two: "\<forall>n. parseSpec n asciiLib loopRegistry (always 0) ''age,@loop'' = None"
    using expansion_termination [of loopRegistry asciiLib "''age,@loop''" "{''loop''}" "always 0" 1 "''loop''"]
      closed reaches_loop(2) refAt_loop(2) by blast
  show ?thesis
    using acyclic_chain one defaults_loop reaches_loop refAt_loop two by blast
qed

end
